theory Spec2Isabelle
  imports Main "HOL-Library.Char_ord" "HOL-Library.List_Lexorder"
begin

section \<open>JavaScript values\<close>

text \<open>
  The program keeps its records (word cards, decks, stories, the generation draft) as
  plain JavaScript objects that travel through \<^verbatim>\<open>JSON.stringify\<close> and
  \<^verbatim>\<open>JSON.parse\<close>. The migration functions take \<^verbatim>\<open>any\<close>, so the model is
  untyped as well: one datatype of values. An object is the list of its own enumerable
  properties in the order in which JavaScript enumerates them: the keys that are array
  indices in ascending numeric order, then the other keys in the order of their
  creation. A list that is not so ordered, or that repeats a key, stands for no object
  of the program. Numbers are only ever tested for truthiness here, so an integer
  stands for a number and \<open>0\<close> for the falsy ones.
\<close>

datatype json =
    JUndefined
  | JNull
  | JBool bool
  | JNum int
  | JStr string
  | JArr "json list"
  | JObj "(string \<times> json) list"

datatype error =
    TypeError
  | SyntaxError
  | FileContentNotString
  | InvalidImportFile
  | GenerationFailed string

text \<open>Running a callback over an array stops at the first element on which it throws.\<close>

fun mapE :: "('a \<Rightarrow> error + 'b) \<Rightarrow> 'a list \<Rightarrow> error + 'b list" where
  "mapE f [] = Inr []"
| "mapE f (x # xs) =
     (case f x of
        Inl e \<Rightarrow> Inl e
      | Inr y \<Rightarrow> (case mapE f xs of Inl e \<Rightarrow> Inl e | Inr ys \<Rightarrow> Inr (y # ys)))"

fun filterE :: "('a \<Rightarrow> error + bool) \<Rightarrow> 'a list \<Rightarrow> error + 'a list" where
  "filterE p [] = Inr []"
| "filterE p (x # xs) =
     (case p x of
        Inl e \<Rightarrow> Inl e
      | Inr b \<Rightarrow>
          (case filterE p xs of
             Inl e \<Rightarrow> Inl e
           | Inr ys \<Rightarrow> Inr (if b then x # ys else ys)))"

text \<open>Truthiness, as \<^verbatim>\<open>||\<close>, \<^verbatim>\<open>&&\<close> and \<^verbatim>\<open>if\<close> test it.\<close>

fun truthy :: "json \<Rightarrow> bool" where
  "truthy JUndefined = False"
| "truthy JNull = False"
| "truthy (JBool b) = b"
| "truthy (JNum n) = (n \<noteq> 0)"
| "truthy (JStr s) = (s \<noteq> [])"
| "truthy (JArr xs) = True"
| "truthy (JObj kvs) = True"

text \<open>\<^verbatim>\<open>a || b\<close>\<close>

definition orElse :: "json \<Rightarrow> json \<Rightarrow> json" where
  "orElse a b = (if truthy a then a else b)"

fun isArray :: "json \<Rightarrow> bool" where
  "isArray (JArr xs) = True"
| "isArray v = False"

text \<open>
  The elements of a value on which an array method (\<^verbatim>\<open>map\<close>, \<^verbatim>\<open>filter\<close>,
  \<^verbatim>\<open>forEach\<close>, \<^verbatim>\<open>sort\<close>) is called: anything but an array has no such
  method, and the call throws.
\<close>

fun arrayElements :: "json \<Rightarrow> error + json list" where
  "arrayElements (JArr xs) = Inr xs"
| "arrayElements v = Inl TypeError"

text \<open>\<^verbatim>\<open>typeof v === 'object'\<close>: objects, arrays and \<^verbatim>\<open>null\<close>.\<close>

fun typeofObject :: "json \<Rightarrow> bool" where
  "typeofObject (JObj kvs) = True"
| "typeofObject (JArr xs) = True"
| "typeofObject JNull = True"
| "typeofObject v = False"

subsection \<open>Properties\<close>

text \<open>
  \<^verbatim>\<open>v.k\<close> for the property names the program reads (\<^verbatim>\<open>id\<close>, \<^verbatim>\<open>word\<close>,
  \<^verbatim>\<open>cards\<close>, \<^verbatim>\<open>targetLanguage\<close>, ...), none of which a prototype defines: reading
  from \<^verbatim>\<open>null\<close> or \<^verbatim>\<open>undefined\<close> throws, a missing property reads as
  \<^verbatim>\<open>undefined\<close>, and strings, arrays, numbers and booleans have no such property.
\<close>

fun lookupProp :: "(string \<times> json) list \<Rightarrow> string \<Rightarrow> json" where
  "lookupProp [] k = JUndefined"
| "lookupProp ((k', v) # kvs) k = (if k' = k then v else lookupProp kvs k)"

fun getprop :: "json \<Rightarrow> string \<Rightarrow> error + json" where
  "getprop JUndefined k = Inl TypeError"
| "getprop JNull k = Inl TypeError"
| "getprop (JObj kvs) k = Inr (lookupProp kvs k)"
| "getprop v k = Inr JUndefined"

text \<open>
  The same read where the source has already made sure that the value is neither
  \<^verbatim>\<open>null\<close> nor \<^verbatim>\<open>undefined\<close>, so that it cannot throw.
\<close>

definition propOf :: "json \<Rightarrow> string \<Rightarrow> json" where
  "propOf v k = (case getprop v k of Inl e \<Rightarrow> JUndefined | Inr x \<Rightarrow> x)"

text \<open>\<^verbatim>\<open>k in obj\<close> for the own properties of an object.\<close>

fun hasKey :: "(string \<times> json) list \<Rightarrow> string \<Rightarrow> bool" where
  "hasKey [] k = False"
| "hasKey ((k', v) # kvs) k = (k' = k \<or> hasKey kvs k)"

text \<open>
  A key is an array index when it is the decimal text, without leading zeros, of a
  number below 4294967295. JavaScript enumerates these keys first, in ascending order,
  whenever they were written.
\<close>

definition isDigit :: "char \<Rightarrow> bool" where
  "isDigit c = (c \<in> set ''0123456789'')"

definition digitValue :: "char \<Rightarrow> nat" where
  "digitValue c = of_char c - 48"

definition decimal :: "string \<Rightarrow> nat" where
  "decimal s = foldl (\<lambda>n c. 10 * n + digitValue c) 0 s"

definition arrayIndex :: "string \<Rightarrow> nat option" where
  "arrayIndex k =
     (if k \<noteq> [] \<and> list_all isDigit k \<and> (k = ''0'' \<or> hd k \<noteq> CHR ''0'') \<and> decimal k < 4294967295
      then Some (decimal k) else None)"

definition indexBelow :: "nat \<Rightarrow> string \<times> json \<Rightarrow> bool" where
  "indexBelow n kv = (case arrayIndex (fst kv) of Some m \<Rightarrow> m < n | None \<Rightarrow> False)"

text \<open>
  Writing a property in an object literal or through a spread. An existing key keeps
  its position and takes the new value. A new key that is an array index goes after the
  smaller indices and before everything else; any other new key goes last.
\<close>

fun replaceProp :: "string \<Rightarrow> json \<Rightarrow> (string \<times> json) list \<Rightarrow> (string \<times> json) list" where
  "replaceProp k v [] = []"
| "replaceProp k v ((k', v') # kvs) =
     (if k' = k then (k, v) # kvs else (k', v') # replaceProp k v kvs)"

definition insertProp :: "string \<Rightarrow> json \<Rightarrow> (string \<times> json) list \<Rightarrow> (string \<times> json) list" where
  "insertProp k v obj =
     (case arrayIndex k of
        None \<Rightarrow> obj @ [(k, v)]
      | Some n \<Rightarrow> takeWhile (indexBelow n) obj @ (k, v) # dropWhile (indexBelow n) obj)"

definition setprop :: "string \<Rightarrow> json \<Rightarrow> (string \<times> json) list \<Rightarrow> (string \<times> json) list" where
  "setprop k v obj = (if hasKey obj k then replaceProp k v obj else insertProp k v obj)"

text \<open>\<^verbatim>\<open>{ ...written before, k1: v1, k2: v2, ... }\<close>: the listed writes, in order.\<close>

fun setprops :: "(string \<times> json) list \<Rightarrow> (string \<times> json) list \<Rightarrow> (string \<times> json) list" where
  "setprops [] obj = obj"
| "setprops ((k, v) # ws) obj = setprops ws (setprop k v obj)"

text \<open>Decimal text of an array index, the key a spread gives to an element.\<close>

definition digit_char :: "nat \<Rightarrow> char" where
  "digit_char d = ''0123456789'' ! d"

fun show_nat :: "nat \<Rightarrow> string" where
  "show_nat n = (if n < 10 then [digit_char n] else show_nat (n div 10) @ [digit_char (n mod 10)])"

fun indexed :: "nat \<Rightarrow> json list \<Rightarrow> (string \<times> json) list" where
  "indexed i [] = []"
| "indexed i (x # xs) = (show_nat i, x) # indexed (Suc i) xs"

text \<open>
  The own enumerable properties a spread \<^verbatim>\<open>...v\<close> copies: an object's properties, the
  elements of an array and the characters of a string under their indices, and nothing
  for \<^verbatim>\<open>null\<close>, \<^verbatim>\<open>undefined\<close>, numbers and booleans.
\<close>

fun ownProps :: "json \<Rightarrow> (string \<times> json) list" where
  "ownProps (JObj kvs) = kvs"
| "ownProps (JArr xs) = indexed 0 xs"
| "ownProps (JStr s) = indexed 0 (map (\<lambda>c. JStr [c]) s)"
| "ownProps v = []"

text \<open>\<^verbatim>\<open>const { id, ...data } = card\<close>: the rest without \<^verbatim>\<open>id\<close>.\<close>

definition omitId :: "json \<Rightarrow> json" where
  "omitId c = JObj (filter (\<lambda>(k, v). k \<noteq> ''id'') (ownProps c))"

subsection \<open>Strings\<close>

text \<open>
  A \<open>char\<close> stands for one UTF-16 code unit below 256, that is, a character of Basic
  Latin or of the Latin-1 Supplement; strings with other code units are outside the
  model. On these strings \<^verbatim>\<open>toLowerCase\<close> works code unit by code unit: it lowers
  the letters A to Z, U+00C0 to U+00D6 and U+00D8 to U+00DE, each to the code unit 32
  above, and leaves every other code unit as it is. \<^verbatim>\<open>trim\<close> strips tab, line
  feed, vertical tab, form feed, carriage return, space and the no-break space U+00A0
  from both ends. \<^verbatim>\<open>Array.prototype.sort\<close> without a comparator orders strings by
  their code units, which is the lexicographic order on \<open>string\<close>.
\<close>

definition upperCase :: string where
  "upperCase =
     ''ABCDEFGHIJKLMNOPQRSTUVWXYZ'' @
       [CHR 0xC0, CHR 0xC1, CHR 0xC2, CHR 0xC3, CHR 0xC4, CHR 0xC5, CHR 0xC6, CHR 0xC7,
        CHR 0xC8, CHR 0xC9, CHR 0xCA, CHR 0xCB, CHR 0xCC, CHR 0xCD, CHR 0xCE, CHR 0xCF,
        CHR 0xD0, CHR 0xD1, CHR 0xD2, CHR 0xD3, CHR 0xD4, CHR 0xD5, CHR 0xD6, CHR 0xD8,
        CHR 0xD9, CHR 0xDA, CHR 0xDB, CHR 0xDC, CHR 0xDD, CHR 0xDE]"

definition lowerCase :: string where
  "lowerCase =
     ''abcdefghijklmnopqrstuvwxyz'' @
       [CHR 0xE0, CHR 0xE1, CHR 0xE2, CHR 0xE3, CHR 0xE4, CHR 0xE5, CHR 0xE6, CHR 0xE7,
        CHR 0xE8, CHR 0xE9, CHR 0xEA, CHR 0xEB, CHR 0xEC, CHR 0xED, CHR 0xEE, CHR 0xEF,
        CHR 0xF0, CHR 0xF1, CHR 0xF2, CHR 0xF3, CHR 0xF4, CHR 0xF5, CHR 0xF6, CHR 0xF8,
        CHR 0xF9, CHR 0xFA, CHR 0xFB, CHR 0xFC, CHR 0xFD, CHR 0xFE]"

definition lowerChar :: "char \<Rightarrow> char" where
  "lowerChar c = (case map_of (zip upperCase lowerCase) c of Some l \<Rightarrow> l | None \<Rightarrow> c)"

definition toLowerCase :: "string \<Rightarrow> string" where
  "toLowerCase s = map lowerChar s"

definition isSpace :: "char \<Rightarrow> bool" where
  "isSpace c = ((of_char c :: nat) \<in> {9, 10, 11, 12, 13, 32, 160})"

definition trim :: "string \<Rightarrow> string" where
  "trim s = rev (dropWhile isSpace (rev (dropWhile isSpace s)))"

section \<open>Content store (storageService.ts)\<close>

subsection \<open>Migration\<close>

text \<open>
  Each migration is an object literal \<^verbatim>\<open>{ ...record, k1: e1, k2: e2, ... }\<close> in which
  every \<^verbatim>\<open>ei\<close> is computed from \<^verbatim>\<open>record.ki\<close>. A rule is such a key with the
  function of the value read; the literal spreads the record, then reads and writes
  the keys in the order listed. Reading a property of \<^verbatim>\<open>null\<close> or
  \<^verbatim>\<open>undefined\<close> throws.
\<close>

type_synonym rule = "string \<times> (json \<Rightarrow> error + json)"

definition applyRule :: "json \<Rightarrow> rule \<Rightarrow> error + (string \<times> json)" where
  "applyRule r kf =
     (case getprop r (fst kf) of
        Inl e \<Rightarrow> Inl e
      | Inr v \<Rightarrow> (case snd kf v of Inl e \<Rightarrow> Inl e | Inr v' \<Rightarrow> Inr (fst kf, v')))"

definition migrateWith :: "rule list \<Rightarrow> json \<Rightarrow> error + json" where
  "migrateWith rules r =
     (case mapE (applyRule r) rules of
        Inl e \<Rightarrow> Inl e
      | Inr writes \<Rightarrow> Inr (JObj (setprops writes (ownProps r))))"

text \<open>\<^verbatim>\<open>record.k || d\<close>\<close>

definition orDefault :: "json \<Rightarrow> json \<Rightarrow> error + json" where
  "orDefault d v = Inr (orElse v d)"

text \<open>\<^verbatim>\<open>Array.isArray(record.k) ? record.k : []\<close>\<close>

definition arrayOrEmpty :: "json \<Rightarrow> error + json" where
  "arrayOrEmpty v = Inr (if isArray v then v else JArr [])"

definition defaultPhonetics :: json where
  "defaultPhonetics = JObj [(''uk'', JStr []), (''us'', JStr [])]"

definition defaultPartOfSpeech :: json where
  "defaultPartOfSpeech = JObj [(''abbreviation'', JStr []), (''nativeName'', JStr [])]"

definition wordCardRules :: "rule list" where
  "wordCardRules =
     [(''targetLanguage'', orDefault (JStr ''en'')),
      (''nativeLanguage'', orDefault (JStr ''zh'')),
      (''phonetics'', orDefault defaultPhonetics),
      (''partOfSpeech'', orDefault defaultPartOfSpeech),
      (''definitions'', arrayOrEmpty),
      (''collocations'', arrayOrEmpty),
      (''synonyms'', arrayOrEmpty),
      (''antonyms'', arrayOrEmpty),
      (''wordFamily'', arrayOrEmpty),
      (''mnemonic'', arrayOrEmpty)]"

definition migrateWordCard :: "json \<Rightarrow> error + json" where
  "migrateWordCard c = migrateWith wordCardRules c"

text \<open>\<^verbatim>\<open>Array.isArray(deck.cards) ? deck.cards.map(migrateWordCard) : []\<close>\<close>

definition migrateCards :: "json \<Rightarrow> error + json" where
  "migrateCards v =
     (case v of
        JArr cs \<Rightarrow> (case mapE migrateWordCard cs of Inl e \<Rightarrow> Inl e | Inr cs' \<Rightarrow> Inr (JArr cs'))
      | _ \<Rightarrow> Inr (JArr []))"

definition deckRules :: "rule list" where
  "deckRules =
     [(''targetLanguage'', orDefault (JStr ''en'')),
      (''nativeLanguage'', orDefault (JStr ''zh'')),
      (''cards'', migrateCards)]"

definition migrateDeck :: "json \<Rightarrow> error + json" where
  "migrateDeck deck = migrateWith deckRules deck"

definition storyRules :: "rule list" where
  "storyRules =
     [(''targetLanguage'', orDefault (JStr ''en'')),
      (''nativeLanguage'', orDefault (JStr ''zh''))]"

definition migrateStory :: "json \<Rightarrow> error + json" where
  "migrateStory story = migrateWith storyRules story"

subsection \<open>localStorage\<close>

text \<open>
  A stored item is a text. The program only ever reads one through
  \<^verbatim>\<open>JSON.parse\<close>, so the model keeps of a text what parsing makes of it: the
  empty text (falsy, never parsed), a text on which \<^verbatim>\<open>JSON.parse\<close> throws, or the
  value it parses to. \<^verbatim>\<open>JSON.stringify\<close> writes a value without its
  \<^verbatim>\<open>undefined\<close> properties and with \<^verbatim>\<open>null\<close> for an \<^verbatim>\<open>undefined\<close>
  array element; \<open>jsonify v\<close> is the value the written text parses back to. Writes
  are taken to succeed: the quota of the browser's storage is outside the model.
\<close>

datatype stored = EmptyText | Garbled | Text json

type_synonym storage = "string \<Rightarrow> stored option"

definition undefinedToNull :: "json \<Rightarrow> json" where
  "undefinedToNull v = (if v = JUndefined then JNull else v)"

primrec jsonify :: "json \<Rightarrow> json" where
  "jsonify JUndefined = JUndefined"
| "jsonify JNull = JNull"
| "jsonify (JBool b) = JBool b"
| "jsonify (JNum n) = JNum n"
| "jsonify (JStr s) = JStr s"
| "jsonify (JArr xs) = JArr (map undefinedToNull (map jsonify xs))"
| "jsonify (JObj kvs) =
     JObj (filter (\<lambda>kv. snd kv \<noteq> JUndefined) (map (map_prod id jsonify) kvs))"

text \<open>
  \<^verbatim>\<open>JSON.stringify(v)\<close> as the item \<^verbatim>\<open>setItem\<close> then stores. For
  \<^verbatim>\<open>undefined\<close> the result is \<^verbatim>\<open>undefined\<close>, stored as a text that does not
  parse.
\<close>

definition stringify :: "json \<Rightarrow> stored" where
  "stringify v = (if v = JUndefined then Garbled else Text (jsonify v))"

definition DECKS_KEY :: string where "DECKS_KEY = ''flashcardDecks''"
definition WORDS_KEY :: string where "WORDS_KEY = ''flashcardWords''"
definition STORIES_KEY :: string where "STORIES_KEY = ''flashcardStories''"

text \<open>
  The three readers share one shape: \<^verbatim>\<open>item ? JSON.parse(item) : []\<close>, then
  \<^verbatim>\<open>.map(migrate)\<close>, and \<^verbatim>\<open>[]\<close> when anything in between throws (the text
  does not parse, the value has no \<^verbatim>\<open>map\<close> method, the migration throws).
\<close>

definition parseOrEmpty :: "stored option \<Rightarrow> error + json" where
  "parseOrEmpty item =
     (case item of
        None \<Rightarrow> Inr (JArr [])
      | Some EmptyText \<Rightarrow> Inr (JArr [])
      | Some Garbled \<Rightarrow> Inl SyntaxError
      | Some (Text v) \<Rightarrow> Inr v)"

definition mapArray :: "(json \<Rightarrow> error + 'a) \<Rightarrow> json \<Rightarrow> error + 'a list" where
  "mapArray f v = (case arrayElements v of Inl e \<Rightarrow> Inl e | Inr xs \<Rightarrow> mapE f xs)"

definition readCollection :: "(json \<Rightarrow> error + json) \<Rightarrow> stored option \<Rightarrow> json list" where
  "readCollection migrate item =
     (case parseOrEmpty item of
        Inl e \<Rightarrow> []
      | Inr v \<Rightarrow> (case mapArray migrate v of Inl e \<Rightarrow> [] | Inr xs \<Rightarrow> xs))"

definition getDecks :: "storage \<Rightarrow> json list" where
  "getDecks st = readCollection migrateDeck (st DECKS_KEY)"

definition saveDecks :: "json list \<Rightarrow> storage \<Rightarrow> storage" where
  "saveDecks decks st = st(DECKS_KEY \<mapsto> stringify (JArr decks))"

definition getWords :: "storage \<Rightarrow> json list" where
  "getWords st = readCollection migrateWordCard (st WORDS_KEY)"

definition saveWords :: "json list \<Rightarrow> storage \<Rightarrow> storage" where
  "saveWords ws st = st(WORDS_KEY \<mapsto> stringify (JArr ws))"

definition getStories :: "storage \<Rightarrow> json list" where
  "getStories st = readCollection migrateStory (st STORIES_KEY)"

definition saveStories :: "json list \<Rightarrow> storage \<Rightarrow> storage" where
  "saveStories stories st = st(STORIES_KEY \<mapsto> stringify (JArr stories))"

section \<open>Resumable batch generator (geminiService.ts)\<close>

subsection \<open>Generation client\<close>

text \<open>
  The remote model is a parameter. \<open>ai_flashcard\<close> is the model's answer to the
  flashcard prompt for a word and two language codes: the call throws, or returns a
  response whose text is a stored text as above. \<open>ai_speech\<close> is the answer to the
  speech request: the call throws, or returns the inline audio data of the response
  (\<^verbatim>\<open>undefined\<close> when the response has none). \<open>uuid\<close> lists the identifiers
  \<^verbatim>\<open>uuidv4()\<close> returns, in the order of the calls.
\<close>

record env =
  ai_flashcard :: "string \<Rightarrow> string \<Rightarrow> string \<Rightarrow> error + stored"
  ai_speech :: "string \<Rightarrow> string \<Rightarrow> error + json"
  uuid :: "nat \<Rightarrow> string"

text \<open>
  \<^verbatim>\<open>generateFlashcardDataForWord\<close> parses the response text and turns every failure
  (of the call or of the parse) into its own error.
\<close>

definition generateFlashcardDataForWord :: "env \<Rightarrow> string \<Rightarrow> string \<Rightarrow> string \<Rightarrow> error + json" where
  "generateFlashcardDataForWord env w targetLanguage nativeLanguage =
     (case ai_flashcard env w targetLanguage nativeLanguage of
        Inl e \<Rightarrow> Inl (GenerationFailed w)
      | Inr EmptyText \<Rightarrow> Inl (GenerationFailed w)
      | Inr Garbled \<Rightarrow> Inl (GenerationFailed w)
      | Inr (Text v) \<Rightarrow> Inr v)"

text \<open>\<^verbatim>\<open>generateSpeech\<close> never throws: a failed call gives \<^verbatim>\<open>undefined\<close>.\<close>

definition generateSpeech :: "env \<Rightarrow> string \<Rightarrow> string \<Rightarrow> json" where
  "generateSpeech env w targetLanguage =
     (case ai_speech env w targetLanguage of Inl e \<Rightarrow> JUndefined | Inr a \<Rightarrow> a)"

subsection \<open>The state a run threads\<close>

text \<open>
  Besides localStorage, a run is observed through the messages it hands to
  \<^verbatim>\<open>onProgress\<close>, the remote calls it issues, and the identifiers it mints. The
  messages carry the word, the position \<^verbatim>\<open>i + 1\<close> and the number of words.
\<close>

datatype progress =
    Resuming
  | LoadingLocal
  | Skipped string nat nat
  | FoundLocal string nat nat
  | GeneratingData string nat nat
  | GeneratingSpeech string nat nat

datatype call = FlashcardCall string string string | SpeechCall string string

record run =
  store :: storage
  reported :: "progress list"
  calls :: "call list"
  minted :: nat

definition onProgress :: "progress \<Rightarrow> run \<Rightarrow> run" where
  "onProgress p s = s\<lparr>reported := reported s @ [p]\<rparr>"

definition remote :: "call \<Rightarrow> run \<Rightarrow> run" where
  "remote c s = s\<lparr>calls := calls s @ [c]\<rparr>"

definition uuidv4 :: "env \<Rightarrow> run \<Rightarrow> string \<times> run" where
  "uuidv4 env s = (uuid env (minted s), s\<lparr>minted := Suc (minted s)\<rparr>)"

definition setItem :: "string \<Rightarrow> stored \<Rightarrow> run \<Rightarrow> run" where
  "setItem k v s = s\<lparr>store := (store s)(k \<mapsto> v)\<rparr>"

definition removeItem :: "string \<Rightarrow> run \<Rightarrow> run" where
  "removeItem k s = s\<lparr>store := (store s)(k := None)\<rparr>"

subsection \<open>Step 1: the requested words and the draft\<close>

definition DRAFT_KEY :: string where "DRAFT_KEY = ''word_generation_draft''"

text \<open>\<^verbatim>\<open>[...new Set(xs)]\<close>: the elements in the order of their first occurrence.\<close>

definition setAdd :: "string list \<Rightarrow> string \<Rightarrow> string list" where
  "setAdd seen x = (if x \<in> set seen then seen else seen @ [x])"

definition newSet :: "string list \<Rightarrow> string list" where
  "newSet xs = foldl setAdd [] xs"

definition uniqueInputWords :: "string list \<Rightarrow> string list" where
  "uniqueInputWords ws = newSet (filter (\<lambda>w. w \<noteq> []) (map (\<lambda>w. toLowerCase (trim w)) ws))"

text \<open>
  The draft is for this request when
  \<^verbatim>\<open>JSON.stringify(draft.inputWords.sort()) === JSON.stringify(uniqueInputWords.sort())\<close>.
  The right-hand text is that of an array of strings, and the text of an array holding
  anything but strings differs from it however the array is ordered; so the test holds
  exactly when the draft's array holds strings only and sorts to the same list.
\<close>

fun stringsOf :: "json list \<Rightarrow> string list option" where
  "stringsOf [] = Some []"
| "stringsOf (JStr s # vs) = (case stringsOf vs of None \<Rightarrow> None | Some ss \<Rightarrow> Some (s # ss))"
| "stringsOf (v # vs) = None"

definition sameWords :: "json list \<Rightarrow> string list \<Rightarrow> bool" where
  "sameWords inputWords sortedWords =
     (case stringsOf inputWords of None \<Rightarrow> False | Some ws \<Rightarrow> sort ws = sortedWords)"

text \<open>
  The \<^verbatim>\<open>try\<close> block that reads the draft. It returns the requested words (sorted in
  place by the comparison, once the draft's \<^verbatim>\<open>inputWords\<close> has proved to be an
  array), the value of \<^verbatim>\<open>generatedCards\<close>, and the state. The \<^verbatim>\<open>catch\<close>
  removes the draft: it is reached when the text does not parse, when the parsed draft
  is \<^verbatim>\<open>null\<close>, and when \<^verbatim>\<open>inputWords\<close> has no \<^verbatim>\<open>sort\<close> method.
\<close>

definition loadDraft :: "string list \<Rightarrow> run \<Rightarrow> string list \<times> json \<times> run" where
  "loadDraft ws s =
     (case store s DRAFT_KEY of
        None \<Rightarrow> (ws, JArr [], s)
      | Some EmptyText \<Rightarrow> (ws, JArr [], s)
      | Some Garbled \<Rightarrow> (ws, JArr [], removeItem DRAFT_KEY s)
      | Some (Text draft) \<Rightarrow>
          (case getprop draft ''inputWords'' of
             Inl e \<Rightarrow> (ws, JArr [], removeItem DRAFT_KEY s)
           | Inr v \<Rightarrow>
               (case arrayElements v of
                  Inl e \<Rightarrow> (ws, JArr [], removeItem DRAFT_KEY s)
                | Inr inputWords \<Rightarrow>
                    if sameWords inputWords (sort ws)
                    then (case getprop draft ''generatedCards'' of
                            Inl e \<Rightarrow> (sort ws, JArr [], removeItem DRAFT_KEY s)
                          | Inr cards \<Rightarrow> (sort ws, cards, onProgress Resuming s))
                    else (sort ws, JArr [], s))))"

text \<open>\<^verbatim>\<open>c.word.toLowerCase()\<close>: throws unless \<^verbatim>\<open>c.word\<close> is a string.\<close>

definition wordKey :: "json \<Rightarrow> error + string" where
  "wordKey c =
     (case getprop c ''word'' of
        Inl e \<Rightarrow> Inl e
      | Inr (JStr w) \<Rightarrow> Inr (toLowerCase w)
      | Inr other \<Rightarrow> Inl TypeError)"

subsection \<open>Step 2: the lookup of words already stored\<close>

text \<open>
  \<^verbatim>\<open>existingWordData\<close> is a \<^verbatim>\<open>Map\<close> from the lowered word to the card without
  its \<^verbatim>\<open>id\<close>; a card is entered only if its word is not a key yet.
\<close>

fun scanCards :: "json list \<Rightarrow> (string \<rightharpoonup> json) \<Rightarrow> error + (string \<rightharpoonup> json)" where
  "scanCards [] ex = Inr ex"
| "scanCards (c # cs) ex =
     (case wordKey c of
        Inl e \<Rightarrow> Inl e
      | Inr k \<Rightarrow> scanCards cs (if ex k = None then ex(k \<mapsto> omitId c) else ex))"

fun scanDecks :: "json list \<Rightarrow> (string \<rightharpoonup> json) \<Rightarrow> error + (string \<rightharpoonup> json)" where
  "scanDecks [] ex = Inr ex"
| "scanDecks (d # ds) ex =
     (case getprop d ''cards'' of
        Inl e \<Rightarrow> Inl e
      | Inr v \<Rightarrow>
          (case arrayElements v of
             Inl e \<Rightarrow> Inl e
           | Inr cs \<Rightarrow>
               (case scanCards cs ex of Inl e \<Rightarrow> Inl e | Inr ex' \<Rightarrow> scanDecks ds ex')))"

text \<open>The decks are scanned first, then the words.\<close>

definition existingWordData :: "storage \<Rightarrow> error + (string \<rightharpoonup> json)" where
  "existingWordData st =
     (let allDecks = getDecks st; allWords = getWords st in
      case scanDecks allDecks Map.empty of
        Inl e \<Rightarrow> Inl e
      | Inr ex \<Rightarrow> scanCards allWords ex)"

subsection \<open>Step 3: the loop over the requested words\<close>

text \<open>
  The card of a word found locally is \<^verbatim>\<open>{ id: uuidv4(), ...cardData }\<close>; the card
  of a generated word is
  \<^verbatim>\<open>{ id: uuidv4(), ...cardData, audioPronunciation, image: undefined }\<close>. Both
  write \<^verbatim>\<open>id\<close> first and the spread after it, so an \<^verbatim>\<open>id\<close> of the card
  data replaces the new one, and the array indices among the keys of the card data come
  before \<^verbatim>\<open>id\<close>.
\<close>

definition reusedCard :: "string \<Rightarrow> json \<Rightarrow> json" where
  "reusedCard newId cardData = JObj (setprops (ownProps cardData) [(''id'', JStr newId)])"

definition newCard :: "string \<Rightarrow> json \<Rightarrow> json \<Rightarrow> json" where
  "newCard newId cardData audioPronunciation =
     JObj (setprops
       (ownProps cardData @ [(''audioPronunciation'', audioPronunciation), (''image'', JUndefined)])
       [(''id'', JStr newId)])"

text \<open>The draft written after a generated word.\<close>

definition draftToSave :: "string list \<Rightarrow> json list \<Rightarrow> json" where
  "draftToSave inputWords generatedCards =
     JObj [(''inputWords'', JArr (map JStr inputWords)), (''generatedCards'', JArr generatedCards)]"

text \<open>
  The body of the \<^verbatim>\<open>for\<close> loop. \<open>ws\<close> is the whole list
  (\<^verbatim>\<open>uniqueInputWords\<close>), \<open>i\<close> the index and \<open>w\<close> the word at hand,
  \<open>already\<close> the set computed from the recovered cards before the loop, \<open>ex\<close> the
  lookup and \<open>cards\<close> the array \<^verbatim>\<open>generatedCards\<close>. The body returns the error
  the flashcard call throws, or the lookup and the array as it leaves them.
\<close>

definition processWord ::
  "env \<Rightarrow> string \<Rightarrow> string \<Rightarrow> string list \<Rightarrow> string set \<Rightarrow> nat \<Rightarrow> string \<Rightarrow>
   (string \<rightharpoonup> json) \<Rightarrow> json list \<Rightarrow> run \<Rightarrow> run \<times> (error + (string \<rightharpoonup> json) \<times> json list)" where
  "processWord env targetLanguage nativeLanguage ws already i w ex cards s =
     (if w \<in> already then
        (onProgress (Skipped w (i + 1) (length ws)) s, Inr (ex, cards))
      else
        (case ex w of
           Some cardData \<Rightarrow>
             (let s1 = onProgress (FoundLocal w (i + 1) (length ws)) s;
                  (newId, s2) = uuidv4 env s1
              in (s2, Inr (ex, cards @ [reusedCard newId cardData])))
         | None \<Rightarrow>
             (let s1 = remote (FlashcardCall w targetLanguage nativeLanguage)
                         (onProgress (GeneratingData w (i + 1) (length ws)) s)
              in case generateFlashcardDataForWord env w targetLanguage nativeLanguage of
                   Inl e \<Rightarrow> (s1, Inl e)
                 | Inr cardData \<Rightarrow>
                     (let s2 = remote (SpeechCall w targetLanguage)
                                 (onProgress (GeneratingSpeech w (i + 1) (length ws)) s1);
                          audioPronunciation = generateSpeech env w targetLanguage;
                          (newId, s3) = uuidv4 env s2;
                          c = newCard newId cardData audioPronunciation;
                          cards' = cards @ [c];
                          ex' = ex(toLowerCase w \<mapsto> omitId c);
                          s4 = setItem DRAFT_KEY (stringify (draftToSave ws cards')) s3
                      in (s4, Inr (ex', cards'))))))"

text \<open>The loop: the body for each word in turn, left at once when the body throws.\<close>

fun processWords ::
  "env \<Rightarrow> string \<Rightarrow> string \<Rightarrow> string list \<Rightarrow> string set \<Rightarrow> nat \<Rightarrow> string list \<Rightarrow>
   (string \<rightharpoonup> json) \<Rightarrow> json list \<Rightarrow> run \<Rightarrow> run \<times> (error + (string \<rightharpoonup> json) \<times> json list)" where
  "processWords env targetLanguage nativeLanguage ws already i [] ex cards s = (s, Inr (ex, cards))"
| "processWords env targetLanguage nativeLanguage ws already i (w # rest) ex cards s =
     (case processWord env targetLanguage nativeLanguage ws already i w ex cards s of
        (s', Inl e) \<Rightarrow> (s', Inl e)
      | (s', Inr (ex', cards')) \<Rightarrow>
          processWords env targetLanguage nativeLanguage ws already (Suc i) rest ex' cards' s')"

subsection \<open>The whole function\<close>

text \<open>
  The steps in the order of the source: the draft, the set of words already generated
  (outside the \<^verbatim>\<open>try\<close>: it throws when the recovered \<^verbatim>\<open>generatedCards\<close> is
  no array or holds a card without a string \<^verbatim>\<open>word\<close>), the lookup, the loop, and
  the removal of the draft once the loop has completed.
\<close>

definition processAndGenerateWords ::
  "env \<Rightarrow> string list \<Rightarrow> string \<Rightarrow> string \<Rightarrow> run \<Rightarrow> run \<times> (error + json list)" where
  "processAndGenerateWords env words targetLanguage nativeLanguage s0 =
     (case loadDraft (uniqueInputWords words) s0 of
        (ws, generatedCards, s1) \<Rightarrow>
          (case arrayElements generatedCards of
             Inl e \<Rightarrow> (s1, Inl e)
           | Inr recovered \<Rightarrow>
          (case mapE wordKey recovered of
             Inl e \<Rightarrow> (s1, Inl e)
           | Inr alreadyGeneratedWords \<Rightarrow>
               (let s2 = onProgress LoadingLocal s1 in
                case existingWordData (store s2) of
                  Inl e \<Rightarrow> (s2, Inl e)
                | Inr ex \<Rightarrow>
                    (case processWords env targetLanguage nativeLanguage ws
                            (set alreadyGeneratedWords) 0 ws ex recovered s2 of
                       (s3, Inl e) \<Rightarrow> (s3, Inl e)
                     | (s3, Inr (ex', cards)) \<Rightarrow> (removeItem DRAFT_KEY s3, Inr cards))))))"

section \<open>Home page (HomePage component)\<close>

text \<open>
  The component holds what it last read from the store in three state variables; the
  handlers compute from these and write the store. A handler is modelled on the user's
  answer to \<^verbatim>\<open>window.confirm\<close> and returns the error it throws, if any, with the
  state and the store as they are when it ends.
\<close>

record home =
  decks :: "json list"
  stories :: "json list"
  myWords :: "json list"

definition reloadData :: "storage \<Rightarrow> home" where
  "reloadData st = \<lparr>decks = getDecks st, stories = getStories st, myWords = getWords st\<rparr>"

text \<open>\<^verbatim>\<open>x => x.k !== s\<close>, the callback the handlers filter with.\<close>

definition propIsNot :: "string \<Rightarrow> string \<Rightarrow> json \<Rightarrow> error + bool" where
  "propIsNot k s x = (case getprop x k of Inl e \<Rightarrow> Inl e | Inr v \<Rightarrow> Inr (v \<noteq> JStr s))"

definition handleDeleteDeck ::
  "string \<Rightarrow> bool \<Rightarrow> home \<times> storage \<Rightarrow> error option \<times> home \<times> storage" where
  "handleDeleteDeck deckId confirmed hs =
     (case hs of (h, st) \<Rightarrow>
        if confirmed then
          (case filterE (propIsNot ''id'' deckId) (decks h) of
             Inl e \<Rightarrow> (Some e, h, st)
           | Inr updatedDecks \<Rightarrow>
               (let st1 = saveDecks updatedDecks st;
                    h1 = h\<lparr>decks := updatedDecks\<rparr>
                in case filterE (propIsNot ''deckId'' deckId) (stories h1) of
                     Inl e \<Rightarrow> (Some e, h1, st1)
                   | Inr updatedStories \<Rightarrow>
                       (None, h1\<lparr>stories := updatedStories\<rparr>, saveStories updatedStories st1)))
        else (None, h, st))"

text \<open>\<^verbatim>\<open>deck => ({ ...deck, cards: deck.cards.filter(id => id !== wordId) })\<close>\<close>

definition withoutCard :: "string \<Rightarrow> json \<Rightarrow> error + json" where
  "withoutCard wordId deck =
     (case getprop deck ''cards'' of
        Inl e \<Rightarrow> Inl e
      | Inr v \<Rightarrow>
          (case arrayElements v of
             Inl e \<Rightarrow> Inl e
           | Inr ids \<Rightarrow>
               Inr (JObj (setprops [(''cards'', JArr (filter (\<lambda>i. i \<noteq> JStr wordId) ids))]
                            (ownProps deck)))))"

definition handleDeleteWord ::
  "string \<Rightarrow> bool \<Rightarrow> home \<times> storage \<Rightarrow> error option \<times> home \<times> storage" where
  "handleDeleteWord wordId confirmed hs =
     (case hs of (h, st) \<Rightarrow>
        if confirmed then
          (case filterE (propIsNot ''id'' wordId) (myWords h) of
             Inl e \<Rightarrow> (Some e, h, st)
           | Inr updatedWords \<Rightarrow>
               (let st1 = saveWords updatedWords st;
                    h1 = h\<lparr>myWords := updatedWords\<rparr>
                in case mapE (withoutCard wordId) (decks h1) of
                     Inl e \<Rightarrow> (Some e, h1, st1)
                   | Inr updatedDecks \<Rightarrow>
                       (None, h1\<lparr>decks := updatedDecks\<rparr>, saveDecks updatedDecks st1)))
        else (None, h, st))"

subsection \<open>Import\<close>

text \<open>
  What the file reader hands to \<^verbatim>\<open>onload\<close>: nothing when no file was chosen, a
  result that is not a string, or the text of the file.
\<close>

datatype upload = NoFile | NotText | FileText stored

datatype alert = ImportSuccess | ImportFailed error

text \<open>
  \<^verbatim>\<open>Array.isArray(data.k) ? data.k : []\<close>, for a \<^verbatim>\<open>data\<close> that the guard has
  shown to be an object.
\<close>

definition arrayProp :: "json \<Rightarrow> string \<Rightarrow> json list" where
  "arrayProp v k = (case propOf v k of JArr xs \<Rightarrow> xs | _ \<Rightarrow> [])"

text \<open>
  \<^verbatim>\<open>v.length\<close> and \<^verbatim>\<open>v[0]\<close>, which strings and arrays define themselves.
\<close>

fun lengthOf :: "json \<Rightarrow> error + json" where
  "lengthOf JUndefined = Inl TypeError"
| "lengthOf JNull = Inl TypeError"
| "lengthOf (JArr xs) = Inr (JNum (int (length xs)))"
| "lengthOf (JStr s) = Inr (JNum (int (length s)))"
| "lengthOf (JObj kvs) = Inr (lookupProp kvs ''length'')"
| "lengthOf v = Inr JUndefined"

fun firstOf :: "json \<Rightarrow> json" where
  "firstOf (JArr (x # xs)) = x"
| "firstOf (JStr (c # cs)) = JStr [c]"
| "firstOf (JObj kvs) = lookupProp kvs ''0''"
| "firstOf v = JUndefined"

text \<open>
  \<^verbatim>\<open>v > 0\<close>. For a number, \<^verbatim>\<open>undefined\<close>, \<^verbatim>\<open>null\<close> and a boolean the
  comparison is written out; for a string, an array or an object (reached only when
  \<^verbatim>\<open>cards\<close> is an object with a \<^verbatim>\<open>length\<close> property of its own) it goes
  through JavaScript's conversion to a number, which is the parameter \<open>positive\<close>.
\<close>

fun greaterThanZero :: "(json \<Rightarrow> bool) \<Rightarrow> json \<Rightarrow> bool" where
  "greaterThanZero positive (JNum n) = (n > 0)"
| "greaterThanZero positive JUndefined = False"
| "greaterThanZero positive JNull = False"
| "greaterThanZero positive (JBool b) = b"
| "greaterThanZero positive v = positive v"

text \<open>
  The test for the old format:
  \<^verbatim>\<open>importedDecks.length > 0 && importedDecks[0].cards.length > 0 &&
  typeof importedDecks[0].cards[0] === 'object'\<close>.
\<close>

definition oldFormat :: "(json \<Rightarrow> bool) \<Rightarrow> json list \<Rightarrow> error + bool" where
  "oldFormat positive importedDecks =
     (case importedDecks of
        [] \<Rightarrow> Inr False
      | d # ds \<Rightarrow>
          (case getprop d ''cards'' of
             Inl e \<Rightarrow> Inl e
           | Inr cs \<Rightarrow>
               (case lengthOf cs of
                  Inl e \<Rightarrow> Inl e
                | Inr n \<Rightarrow>
                    Inr (greaterThanZero positive n \<and> typeofObject (firstOf cs)))))"

text \<open>
  \<^verbatim>\<open>allWordsMap\<close> is a \<^verbatim>\<open>Map\<close> keyed by \<^verbatim>\<open>id\<close> values: the entries in
  insertion order. Two keys are the same when they are the same primitive value; an
  object or an array parsed from the file is the same as no other key.
\<close>

definition sameKey :: "json \<Rightarrow> json \<Rightarrow> bool" where
  "sameKey a b = (a = b \<and> \<not> isArray a \<and> (case a of JObj kvs \<Rightarrow> False | _ \<Rightarrow> True))"

definition mapHas :: "(json \<times> json) list \<Rightarrow> json \<Rightarrow> bool" where
  "mapHas m k = list_ex (\<lambda>kv. sameKey (fst kv) k) m"

fun mapSet :: "(json \<times> json) list \<Rightarrow> json \<Rightarrow> json \<Rightarrow> (json \<times> json) list" where
  "mapSet [] k v = [(k, v)]"
| "mapSet ((k', v') # m) k v = (if sameKey k' k then (k', v) # m else (k', v') # mapSet m k v)"

text \<open>\<^verbatim>\<open>new Map(importedWords.map(w => [w.id, w]))\<close>\<close>

definition wordEntry :: "json \<Rightarrow> error + (json \<times> json)" where
  "wordEntry w = (case getprop w ''id'' of Inl e \<Rightarrow> Inl e | Inr i \<Rightarrow> Inr (i, w))"

definition newMap :: "(json \<times> json) list \<Rightarrow> (json \<times> json) list" where
  "newMap entries = foldl (\<lambda>m kv. mapSet m (fst kv) (snd kv)) [] entries"

text \<open>
  The \<^verbatim>\<open>forEach\<close> over the cards of one deck: the identifiers collected so far
  and the map.
\<close>

fun collectCards ::
  "json list \<Rightarrow> json list \<Rightarrow> (json \<times> json) list \<Rightarrow> json list \<times> (json \<times> json) list" where
  "collectCards [] cardIds m = (cardIds, m)"
| "collectCards (c # cs) cardIds m =
     (if truthy c \<and> truthy (propOf c ''id'')
      then collectCards cs (cardIds @ [propOf c ''id''])
             (if mapHas m (propOf c ''id'') then m else mapSet m (propOf c ''id'') c)
      else collectCards cs cardIds m)"

text \<open>The \<^verbatim>\<open>map\<close> over the imported decks, threading the map of all words.\<close>

fun upgradeDecks ::
  "json list \<Rightarrow> (json \<times> json) list \<Rightarrow> error + (json list \<times> (json \<times> json) list)" where
  "upgradeDecks [] m = Inr ([], m)"
| "upgradeDecks (deck # ds) m =
     (case getprop deck ''cards'' of
        Inl e \<Rightarrow> Inl e
      | Inr v \<Rightarrow>
          (case arrayElements v of
             Inl e \<Rightarrow> Inl e
           | Inr cs \<Rightarrow>
               (case collectCards cs [] m of
                  (cardIds, m') \<Rightarrow>
                    (case upgradeDecks ds m' of
                       Inl e \<Rightarrow> Inl e
                     | Inr (migrated, m'') \<Rightarrow>
                         Inr (JObj (setprops [(''cards'', JArr cardIds)] (ownProps deck)) # migrated,
                              m'')))))"

text \<open>What is to be saved: the decks and the words, upgraded when in the old format.\<close>

definition importedCollections ::
  "(json \<Rightarrow> bool) \<Rightarrow> json \<Rightarrow> error + (json list \<times> json list)" where
  "importedCollections positive payload =
     (let importedDecks = arrayProp payload ''decks'';
          importedWords = arrayProp payload ''words''
      in case oldFormat positive importedDecks of
           Inl e \<Rightarrow> Inl e
         | Inr False \<Rightarrow> Inr (importedDecks, importedWords)
         | Inr True \<Rightarrow>
             (case mapE wordEntry importedWords of
                Inl e \<Rightarrow> Inl e
              | Inr entries \<Rightarrow>
                  (case upgradeDecks importedDecks (newMap entries) of
                     Inl e \<Rightarrow> Inl e
                   | Inr (migratedDecks, allWordsMap) \<Rightarrow>
                       Inr (migratedDecks, map snd allWordsMap))))"

text \<open>
  The handler. Everything that throws inside the \<^verbatim>\<open>try\<close> ends in the
  \<^verbatim>\<open>catch\<close>, which alerts the failure with the error's message.
\<close>

definition handleFileImport ::
  "(json \<Rightarrow> bool) \<Rightarrow> upload \<Rightarrow> bool \<Rightarrow> home \<times> storage \<Rightarrow> alert option \<times> home \<times> storage" where
  "handleFileImport positive file confirmed hs =
     (case hs of (h, st) \<Rightarrow>
        (case file of
           NoFile \<Rightarrow> (None, h, st)
         | NotText \<Rightarrow> (Some (ImportFailed FileContentNotString), h, st)
         | FileText EmptyText \<Rightarrow> (Some (ImportFailed SyntaxError), h, st)
         | FileText Garbled \<Rightarrow> (Some (ImportFailed SyntaxError), h, st)
         | FileText (Text payload) \<Rightarrow>
             if truthy payload \<and> typeofObject payload \<and> \<not> isArray payload then
               if confirmed then
                 (case importedCollections positive payload of
                    Inl e \<Rightarrow> (Some (ImportFailed e), h, st)
                  | Inr (importedDecks, importedWords) \<Rightarrow>
                      (let st' = saveStories (arrayProp payload ''stories'')
                                   (saveWords importedWords (saveDecks importedDecks st))
                       in (Some ImportSuccess, reloadData st', st')))
               else (None, h, st)
             else (Some (ImportFailed InvalidImportFile), h, st)))"

section \<open>Notions used in the statements\<close>

text \<open>Applying a migration to its own result; an error of the first run is the result.\<close>

definition twice :: "(json \<Rightarrow> error + json) \<Rightarrow> json \<Rightarrow> error + json" where
  "twice f r = (case f r of Inl e \<Rightarrow> Inl e | Inr r' \<Rightarrow> f r')"

text \<open>A rule that maps each of its results to itself.\<close>

definition stable :: "(json \<Rightarrow> error + json) \<Rightarrow> bool" where
  "stable f = (\<forall>v v'. f v = Inr v' \<longrightarrow> f v' = Inr v')"

text \<open>The properties of a record that a migration's rules do not name, in their order.\<close>

definition extraFields :: "rule list \<Rightarrow> (string \<times> json) list \<Rightarrow> (string \<times> json) list" where
  "extraFields rules kvs = filter (\<lambda>kv. fst kv \<notin> set (map fst rules)) kvs"

definition arrayFields :: "string list" where
  "arrayFields =
     [''definitions'', ''collocations'', ''synonyms'', ''antonyms'', ''wordFamily'', ''mnemonic'']"

text \<open>
  The fields each migration writes, and what a migration keeps of a record: the result
  has the keys of the input and the fields written, and the properties that are not
  among these fields are the input's, in the input's order. The language fields are the
  input's when truthy and the defaults otherwise.
\<close>

definition wordCardFields :: "string list" where
  "wordCardFields =
     [''targetLanguage'', ''nativeLanguage'', ''phonetics'', ''partOfSpeech'', ''definitions'',
      ''collocations'', ''synonyms'', ''antonyms'', ''wordFamily'', ''mnemonic'']"

definition deckFields :: "string list" where
  "deckFields = [''targetLanguage'', ''nativeLanguage'', ''cards'']"

definition storyFields :: "string list" where
  "storyFields = [''targetLanguage'', ''nativeLanguage'']"

definition kept :: "string list \<Rightarrow> (string \<times> json) list \<Rightarrow> (string \<times> json) list \<Rightarrow> bool" where
  "kept names kvs kvs' =
     ((\<forall>k. hasKey kvs' k \<longleftrightarrow> hasKey kvs k \<or> k \<in> set names) \<and>
      filter (\<lambda>kv. fst kv \<notin> set names) kvs' = filter (\<lambda>kv. fst kv \<notin> set names) kvs)"

definition languagesFilled :: "(string \<times> json) list \<Rightarrow> (string \<times> json) list \<Rightarrow> bool" where
  "languagesFilled kvs kvs' =
     (lookupProp kvs' ''targetLanguage'' = orElse (lookupProp kvs ''targetLanguage'') (JStr ''en'') \<and>
      lookupProp kvs' ''nativeLanguage'' = orElse (lookupProp kvs ''nativeLanguage'') (JStr ''zh''))"

text \<open>A word card written before the language, phonetics and list fields existed.\<close>

definition legacyCard :: "(string \<times> json) list" where
  "legacyCard =
     [(''id'', JStr ''w1''), (''word'', JStr ''apple''), (''legacyNote'', JNum 7),
      (''synonyms'', JStr ''none'')]"

definition legacyCardMigrated :: "(string \<times> json) list" where
  "legacyCardMigrated =
     [(''id'', JStr ''w1''), (''word'', JStr ''apple''), (''legacyNote'', JNum 7),
      (''synonyms'', JArr []), (''targetLanguage'', JStr ''en''), (''nativeLanguage'', JStr ''zh''),
      (''phonetics'', JObj [(''uk'', JStr []), (''us'', JStr [])]),
      (''partOfSpeech'', JObj [(''abbreviation'', JStr []), (''nativeName'', JStr [])]),
      (''definitions'', JArr []), (''collocations'', JArr []), (''antonyms'', JArr []),
      (''wordFamily'', JArr []), (''mnemonic'', JArr [])]"

text \<open>
  A story without a target language and a deck whose target language is empty and whose
  \<^verbatim>\<open>cards\<close> is \<^verbatim>\<open>null\<close>, with what their migrations return.
\<close>

definition legacyStory :: "(string \<times> json) list" where
  "legacyStory = [(''id'', JStr ''s1''), (''deckId'', JStr ''d1''), (''nativeLanguage'', JStr ''fr''),
                  (''content'', JStr ''An apple a day'')]"

definition legacyDeck :: "(string \<times> json) list" where
  "legacyDeck = [(''id'', JStr ''d1''), (''title'', JStr ''Fruit''), (''targetLanguage'', JStr []),
                 (''cards'', JNull)]"

definition legacyStoryMigrated :: "(string \<times> json) list" where
  "legacyStoryMigrated =
     [(''id'', JStr ''s1''), (''deckId'', JStr ''d1''), (''nativeLanguage'', JStr ''fr''),
      (''content'', JStr ''An apple a day''), (''targetLanguage'', JStr ''en'')]"

definition legacyDeckMigrated :: "(string \<times> json) list" where
  "legacyDeckMigrated =
     [(''id'', JStr ''d1''), (''title'', JStr ''Fruit''), (''targetLanguage'', JStr ''en''),
      (''cards'', JArr []), (''nativeLanguage'', JStr ''zh'')]"

text \<open>
  What the word-card migration writes into a value that has none of the fields, and the
  object it makes of a string: the characters under their indices, then the defaults.
\<close>

definition defaultWrites :: "(string \<times> json) list" where
  "defaultWrites =
     [(''targetLanguage'', JStr ''en''), (''nativeLanguage'', JStr ''zh''),
      (''phonetics'', defaultPhonetics), (''partOfSpeech'', defaultPartOfSpeech),
      (''definitions'', JArr []), (''collocations'', JArr []), (''synonyms'', JArr []),
      (''antonyms'', JArr []), (''wordFamily'', JArr []), (''mnemonic'', JArr [])]"

definition spreadId :: "string \<Rightarrow> json" where
  "spreadId s = JObj (setprops defaultWrites (ownProps (JStr s)))"

text \<open>A deck in the current schema, and what is read back after saving it.\<close>

definition currentDeck :: "(string \<times> json) list" where
  "currentDeck =
     [(''id'', JStr ''d1''), (''title'', JStr ''Fruit''), (''cards'', JArr [JStr ''ab'']),
      (''createdAt'', JStr ''2024-01-01''), (''targetLanguage'', JStr ''en''),
      (''nativeLanguage'', JStr ''zh'')]"

definition currentDeckReadBack :: "(string \<times> json) list" where
  "currentDeckReadBack =
     [(''id'', JStr ''d1''), (''title'', JStr ''Fruit''),
      (''cards'', JArr [JObj ([(''0'', JStr ''a''), (''1'', JStr ''b'')] @ defaultWrites)]),
      (''createdAt'', JStr ''2024-01-01''), (''targetLanguage'', JStr ''en''),
      (''nativeLanguage'', JStr ''zh'')]"

text \<open>
  Two decks, a story of each, and what a home page reads from the store that holds them.
\<close>

definition deckA :: json where
  "deckA = JObj [(''id'', JStr ''d1''), (''title'', JStr ''Fruit''), (''cards'', JArr []),
                 (''createdAt'', JStr ''2024-01-01''), (''targetLanguage'', JStr ''en''),
                 (''nativeLanguage'', JStr ''zh'')]"

definition deckB :: json where
  "deckB = JObj [(''id'', JStr ''d2''), (''title'', JStr ''Tools''), (''cards'', JArr []),
                 (''createdAt'', JStr ''2024-02-02''), (''targetLanguage'', JStr ''en''),
                 (''nativeLanguage'', JStr ''zh'')]"

definition storyA :: json where
  "storyA = JObj [(''id'', JStr ''s1''), (''deckId'', JStr ''d1''), (''title'', JStr ''Fruit''),
                  (''content'', JStr ''An apple a day''), (''words'', JArr [JStr ''apple'']),
                  (''createdAt'', JStr ''2024-01-02''), (''targetLanguage'', JStr ''en''),
                  (''nativeLanguage'', JStr ''zh'')]"

definition storyB :: json where
  "storyB = JObj [(''id'', JStr ''s2''), (''deckId'', JStr ''d2''), (''title'', JStr ''Tools''),
                  (''content'', JStr ''A hammer''), (''words'', JArr [JStr ''hammer'']),
                  (''createdAt'', JStr ''2024-02-03''), (''targetLanguage'', JStr ''en''),
                  (''nativeLanguage'', JStr ''zh'')]"

definition homeStore :: storage where
  "homeStore = [DECKS_KEY \<mapsto> Text (JArr [deckA, deckB]),
                STORIES_KEY \<mapsto> Text (JArr [storyA, storyB]),
                WORDS_KEY \<mapsto> Text (JArr [JObj legacyCardMigrated])]"

definition homeState :: home where
  "homeState = \<lparr>decks = [deckA, deckB], stories = [storyA, storyB],
                 myWords = [JObj legacyCardMigrated]\<rparr>"

text \<open>
  A deck in the current schema, which holds the identifiers of its words, and a word
  card with all its fields. The store as it is once the creation page has saved such a
  deck with two words, and the deck as \<^verbatim>\<open>reloadData\<close> reads it from that store.
\<close>

definition idDeck :: "string \<Rightarrow> string list \<Rightarrow> json" where
  "idDeck i ids = JObj [(''id'', JStr i), (''title'', JStr ''Fruit''), (''cards'', JArr (map JStr ids)),
                 (''createdAt'', JStr ''2024-01-01''), (''targetLanguage'', JStr ''en''),
                 (''nativeLanguage'', JStr ''zh'')]"

definition fullWord :: "string \<Rightarrow> string \<Rightarrow> json" where
  "fullWord i w = JObj ([(''id'', JStr i), (''word'', JStr w)] @ defaultWrites)"

definition memberStore :: storage where
  "memberStore =
     saveWords [fullWord ''w1'' ''apple'', fullWord ''w2'' ''pear'']
       (saveDecks [idDeck ''d1'' [''w1'', ''w2'']] Map.empty)"

definition loadedDeck :: json where
  "loadedDeck =
     JObj [(''id'', JStr ''d1''), (''title'', JStr ''Fruit''),
           (''cards'', JArr [spreadId ''w1'', spreadId ''w2'']),
           (''createdAt'', JStr ''2024-01-01''), (''targetLanguage'', JStr ''en''),
           (''nativeLanguage'', JStr ''zh'')]"

text \<open>
  The guard of the import: \<^verbatim>\<open>data && typeof data === 'object' && !Array.isArray(data)\<close>.
\<close>

definition objectPayload :: "json \<Rightarrow> bool" where
  "objectPayload payload = (truthy payload \<and> typeofObject payload \<and> \<not> isArray payload)"

text \<open>
  The store after the three saves of an import.
\<close>

definition importedStore :: "json list \<Rightarrow> json list \<Rightarrow> json list \<Rightarrow> storage \<Rightarrow> storage" where
  "importedStore ds ws ss st =
     st(DECKS_KEY \<mapsto> stringify (JArr ds), WORDS_KEY \<mapsto> stringify (JArr ws),
        STORIES_KEY \<mapsto> stringify (JArr ss))"

text \<open>
  Two import payloads, and a conversion to a number that no payload here reaches.
\<close>

definition backupPayload :: json where
  "backupPayload = JObj [(''decks'', JArr [deckB]), (''words'', JArr []), (''stories'', JArr [storyB])]"

definition cardlessPayload :: json where
  "cardlessPayload = JObj [(''decks'', JArr [JObj [(''id'', JStr ''d9''), (''title'', JStr ''No cards'')]])]"

definition never :: "json \<Rightarrow> bool" where
  "never v = False"

text \<open>
  The text \<^verbatim>\<open>setItem\<close> stores for a draft, and the card the loop builds for a
  generated word.
\<close>

definition checkpoint :: "string list \<Rightarrow> json list \<Rightarrow> stored" where
  "checkpoint ws cards = stringify (draftToSave ws cards)"

definition generatedCard :: "env \<Rightarrow> string \<Rightarrow> string \<Rightarrow> json \<Rightarrow> run \<Rightarrow> json" where
  "generatedCard env w targetLanguage cardData s =
     newCard (uuid env (minted s)) cardData (generateSpeech env w targetLanguage)"

text \<open>
  The word a remote call is about, and the calls one generated word costs.
\<close>

fun callWord :: "call \<Rightarrow> string" where
  "callWord (FlashcardCall w t n) = w"
| "callWord (SpeechCall w t) = w"

definition requests :: "string \<Rightarrow> string \<Rightarrow> string list \<Rightarrow> call list" where
  "requests tg nv ws = concat (map (\<lambda>w. [FlashcardCall w tg nv, SpeechCall w tg]) ws)"

text \<open>
  The cards embedded in decks, in the order the lookup scans them, and the first card
  of a list whose lowered word is \<open>k\<close>.
\<close>

definition embeddedCards :: "json list \<Rightarrow> json list" where
  "embeddedCards ds = concat (map (\<lambda>d. arrayProp d ''cards'') ds)"

definition firstWith :: "string \<Rightarrow> json list \<Rightarrow> json option" where
  "firstWith k cs = find (\<lambda>c. wordKey c = Inr k) cs"

text \<open>
  A stored draft whose own list of requested words is empty.
\<close>

definition emptyDraft :: "storage \<Rightarrow> bool" where
  "emptyDraft st =
     (case st DRAFT_KEY of
        Some (Text draft) \<Rightarrow> propOf draft ''inputWords'' = JArr []
      | _ \<Rightarrow> False)"

text \<open>
  A generation client for the examples: it fails on the word \<^verbatim>\<open>bad\<close> and
  answers every other word with a small card; speech always succeeds.
\<close>

definition demoEnv :: env where
  "demoEnv =
     \<lparr>ai_flashcard = (\<lambda>w t n. if w = ''bad'' then Inl (GenerationFailed ''offline'')
                                else Inr (Text (JObj [(''word'', JStr w), (''targetLanguage'', JStr t),
                                                      (''nativeLanguage'', JStr n)]))),
      ai_speech = (\<lambda>w t. Inr (JStr ''UklGRg'')),
      uuid = (\<lambda>n. ''id-'' @ show_nat n)\<rparr>"

definition start :: "storage \<Rightarrow> run" where
  "start st = \<lparr>store = st, reported = [], calls = [], minted = 0\<rparr>"

text \<open>
  A store in which the word \<^verbatim>\<open>apple\<close> is both embedded in a deck and held in
  the Words collection, with different content.
\<close>

definition deckApple :: json where
  "deckApple = JObj [(''id'', JStr ''c1''), (''word'', JStr ''Apple''), (''source'', JStr ''deck'')]"

definition wordApple :: json where
  "wordApple = JObj [(''id'', JStr ''w1''), (''word'', JStr ''apple''), (''source'', JStr ''words'')]"

definition libraryStore :: storage where
  "libraryStore =
     [DECKS_KEY \<mapsto> Text (JArr [JObj [(''id'', JStr ''d1''), (''title'', JStr ''Fruit''),
                                        (''cards'', JArr [deckApple])]]),
      WORDS_KEY \<mapsto> Text (JArr [wordApple])]"

definition appleFromDeck :: "(string \<times> json) list" where
  "appleFromDeck = [(''word'', JStr ''Apple''), (''source'', JStr ''deck'')] @ defaultWrites"

definition appleFromWords :: "(string \<times> json) list" where
  "appleFromWords = [(''word'', JStr ''apple''), (''source'', JStr ''words'')] @ defaultWrites"

text \<open>
  The cards and states of the example runs.
\<close>

definition pearData :: json where
  "pearData = JObj [(''word'', JStr ''pear''), (''targetLanguage'', JStr ''en''), (''nativeLanguage'', JStr ''zh'')]"

definition pearCard :: json where
  "pearCard = JObj [(''id'', JStr ''id-0''), (''word'', JStr ''pear''),
                    (''targetLanguage'', JStr ''en''), (''nativeLanguage'', JStr ''zh''),
                    (''audioPronunciation'', JStr ''UklGRg''), (''image'', JUndefined)]"

definition afterPear :: run where
  "afterPear =
     \<lparr>store = [DRAFT_KEY \<mapsto> checkpoint [''pear'', ''bad'', ''kiwi''] [pearCard]],
      reported = [LoadingLocal, GeneratingData ''pear'' 1 3, GeneratingSpeech ''pear'' 1 3],
      calls = [FlashcardCall ''pear'' ''en'' ''zh'', SpeechCall ''pear'' ''en''],
      minted = 1\<rparr>"

definition staleStore :: storage where
  "staleStore = [DRAFT_KEY \<mapsto> checkpoint [''pear'', ''bad'', ''kiwi''] [pearCard]]"

definition pearStored :: json where
  "pearStored = JObj [(''id'', JStr ''id-0''), (''word'', JStr ''pear''),
                      (''targetLanguage'', JStr ''en''), (''nativeLanguage'', JStr ''zh''),
                      (''audioPronunciation'', JStr ''UklGRg'')]"

definition resumeDraft :: "(string \<times> json) list" where
  "resumeDraft = [(''inputWords'', JArr (map JStr [''pear'', ''kiwi'', ''plum''])),
                  (''generatedCards'', JArr [pearStored])]"

definition resumeState :: run where
  "resumeState = \<lparr>store = [DRAFT_KEY \<mapsto> Text (JObj resumeDraft)], reported = [], calls = [], minted = 1\<rparr>"

definition fruitCard :: "string \<Rightarrow> string \<Rightarrow> json" where
  "fruitCard i w = JObj [(''id'', JStr i), (''word'', JStr w),
                    (''targetLanguage'', JStr ''en''), (''nativeLanguage'', JStr ''zh''),
                    (''audioPronunciation'', JStr ''UklGRg''), (''image'', JUndefined)]"

text \<open>
  A store whose draft has an empty list of requested words and one card.
\<close>

definition emptyDraftStore :: storage where
  "emptyDraftStore =
     [DRAFT_KEY \<mapsto> Text (JObj [(''inputWords'', JArr []), (''generatedCards'', JArr [pearStored])])]"

text \<open>
  The state after the loop has generated pear and reused apple from the library.
\<close>

definition afterApple :: run where
  "afterApple =
     \<lparr>store = libraryStore(DRAFT_KEY \<mapsto> checkpoint [''pear'', ''apple''] [pearCard]),
      reported = [LoadingLocal, GeneratingData ''pear'' 1 2, GeneratingSpeech ''pear'' 1 2,
                  FoundLocal ''apple'' 2 2],
      calls = [FlashcardCall ''pear'' ''en'' ''zh'', SpeechCall ''pear'' ''en''],
      minted = 2\<rparr>"

text \<open>
  A store in which a deck embeds a card for the word \<^verbatim>\<open>Ubung\<close> written with a
  capital U with diaeresis (U+00DC), while the Words collection holds the word with the
  small letter (U+00FC).
\<close>

definition umlautStore :: storage where
  "umlautStore =
     [DECKS_KEY \<mapsto> Text (JArr [JObj [(''id'', JStr ''d1''), (''title'', JStr ''Kurs''),
        (''cards'', JArr [JObj [(''id'', JStr ''c1''), (''word'', JStr (CHR 0xDC # ''bung'')),
                                (''source'', JStr ''deck'')]])]]),
      WORDS_KEY \<mapsto> Text (JArr [JObj [(''id'', JStr ''w1''), (''word'', JStr (CHR 0xFC # ''bung'')),
                                       (''source'', JStr ''words'')]])]"

section \<open>Objects and arrays\<close>

lemma arrayIndex_name [simp]: "c \<notin> set ''0123456789'' \<Longrightarrow> arrayIndex (c # cs) = None"
  by (simp add: arrayIndex_def isDigit_def)

lemma lookupProp_replaceProp:
  "lookupProp (replaceProp k v obj) k' = (if k' = k \<and> hasKey obj k then v else lookupProp obj k')"
  by (induction obj) auto

lemma lookupProp_absent: "\<not> hasKey obj k \<Longrightarrow> lookupProp obj k = JUndefined"
  by (induction obj) auto

lemma lookupProp_append:
  "lookupProp (xs @ ys) k = (if hasKey xs k then lookupProp xs k else lookupProp ys k)"
  by (induction xs) auto

lemma hasKey_append: "hasKey (xs @ ys) k \<longleftrightarrow> hasKey xs k \<or> hasKey ys k"
  by (induction xs) auto

lemma hasKey_set: "hasKey obj k \<longleftrightarrow> k \<in> fst ` set obj"
  by (induction obj) auto

lemma lookupProp_insert_at:
  "\<not> hasKey a k \<Longrightarrow>
   lookupProp (a @ (k, v) # b) k' = (if k' = k then v else lookupProp (a @ b) k')"
  by (induction a) auto

lemma lookupProp_insertProp:
  assumes "\<not> hasKey obj k"
  shows "lookupProp (insertProp k v obj) k' = (if k' = k then v else lookupProp obj k')"
proof (cases "arrayIndex k")
  case None
  with assms show ?thesis
    by (auto simp: insertProp_def lookupProp_append lookupProp_absent)
next
  case (Some n)
  have "hasKey (takeWhile (indexBelow n) obj @ dropWhile (indexBelow n) obj) k \<longleftrightarrow>
        hasKey (takeWhile (indexBelow n) obj) k \<or> hasKey (dropWhile (indexBelow n) obj) k"
    by (rule hasKey_append)
  with assms have na: "\<not> hasKey (takeWhile (indexBelow n) obj) k" by simp
  from lookupProp_insert_at [OF na, of v "dropWhile (indexBelow n) obj" k']
  show ?thesis by (simp add: insertProp_def Some)
qed

lemma lookupProp_setprop:
  "lookupProp (setprop k v obj) k' = (if k' = k then v else lookupProp obj k')"
  by (simp add: setprop_def lookupProp_replaceProp lookupProp_insertProp)

lemma hasKey_replaceProp: "hasKey (replaceProp k v obj) k' \<longleftrightarrow> hasKey obj k'"
  by (induction obj) (auto split: if_splits)

lemma hasKey_insertProp: "hasKey (insertProp k v obj) k' \<longleftrightarrow> k' = k \<or> hasKey obj k'"
proof (cases "arrayIndex k")
  case None
  then show ?thesis by (auto simp: insertProp_def hasKey_append)
next
  case (Some n)
  have "hasKey (takeWhile (indexBelow n) obj @ (k, v) # dropWhile (indexBelow n) obj) k' \<longleftrightarrow>
        k' = k \<or> hasKey (takeWhile (indexBelow n) obj @ dropWhile (indexBelow n) obj) k'"
    unfolding hasKey_append by auto
  then show ?thesis by (simp add: insertProp_def Some)
qed

lemma hasKey_setprop: "hasKey (setprop k v obj) k' \<longleftrightarrow> k' = k \<or> hasKey obj k'"
  by (auto simp: setprop_def hasKey_replaceProp hasKey_insertProp)

lemma replaceProp_same: "lookupProp obj k = v \<Longrightarrow> replaceProp k v obj = obj"
  by (induction obj) auto

lemma setprop_same:
  "hasKey obj k \<Longrightarrow> lookupProp obj k = v \<Longrightarrow> setprop k v obj = obj"
  by (simp add: setprop_def replaceProp_same)

lemma filter_replaceProp:
  "(\<And>v'. \<not> P (k, v')) \<Longrightarrow> filter P (replaceProp k v obj) = filter P obj"
  by (induction obj) auto

lemma filter_insertProp:
  assumes "\<And>v'. \<not> P (k, v')"
  shows "filter P (insertProp k v obj) = filter P obj"
proof (cases "arrayIndex k")
  case None
  with assms show ?thesis by (simp add: insertProp_def)
next
  case (Some n)
  have "filter P (takeWhile (indexBelow n) obj @ (k, v) # dropWhile (indexBelow n) obj) =
        filter P (takeWhile (indexBelow n) obj @ dropWhile (indexBelow n) obj)"
    using assms by (simp del: takeWhile_dropWhile_id)
  then show ?thesis by (simp add: insertProp_def Some)
qed

lemma filter_setprop:
  "(\<And>v'. \<not> P (k, v')) \<Longrightarrow> filter P (setprop k v obj) = filter P obj"
  by (simp add: setprop_def filter_replaceProp filter_insertProp)

lemma setprop_Nil [simp]: "setprop k v [] = [(k, v)]"
  by (simp add: setprop_def insertProp_def split: option.splits)

lemma setprop_Cons_name [simp]:
  "arrayIndex k = None \<Longrightarrow>
   setprop k v ((k', v') # kvs) = (if k' = k then (k, v) # kvs else (k', v') # setprop k v kvs)"
  by (simp add: setprop_def insertProp_def)

lemma setprop_Cons_index:
  "arrayIndex k = Some n \<Longrightarrow>
   setprop k v ((k', v') # kvs) =
     (if k' = k then (k, v) # kvs
      else if hasKey kvs k then (k', v') # setprop k v kvs
      else if indexBelow n (k', v') then (k', v') # setprop k v kvs
      else (k, v) # (k', v') # kvs)"
  by (simp add: setprop_def insertProp_def)

text \<open>
  The string functions and the order of keys at concrete values: letters of the Latin-1
  Supplement are lowered, the no-break space is trimmed, and the array indices among
  the keys of a spread come before \<^verbatim>\<open>id\<close>.
\<close>

lemma toLowerCase_latin1: "toLowerCase (CHR 0xDC # ''BER Aal'') = CHR 0xFC # ''ber aal''"
  by (simp add: toLowerCase_def lowerChar_def upperCase_def lowerCase_def)

lemma trim_no_break_space: "trim (CHR 0xA0 # '' a b '' @ [CHR 0x09, CHR 0xA0]) = ''a b''"
  by (simp add: trim_def isSpace_def)

lemma reusedCard_index_keys:
  "reusedCard ''u'' (JObj [(''0'', JStr ''a''), (''10'', JStr ''b''), (''word'', JStr ''x'')]) =
     JObj [(''0'', JStr ''a''), (''10'', JStr ''b''), (''id'', JStr ''u''), (''word'', JStr ''x'')]"
  "reusedCard ''u'' (JStr ''ab'') = JObj [(''0'', JStr ''a''), (''1'', JStr ''b''), (''id'', JStr ''u'')]"
  "reusedCard ''u'' (JObj [(''word'', JStr ''x''), (''id'', JStr ''old'')]) =
     JObj [(''id'', JStr ''old''), (''word'', JStr ''x'')]"
  by (simp_all add: reusedCard_def setprop_Cons_index arrayIndex_def isDigit_def decimal_def
      digitValue_def indexBelow_def digit_char_def)

lemma newCard_index_keys:
  "newCard ''u'' (JArr [JStr ''a'']) JUndefined =
     JObj [(''0'', JStr ''a''), (''id'', JStr ''u''), (''audioPronunciation'', JUndefined),
           (''image'', JUndefined)]"
  by (simp add: newCard_def setprop_Cons_index arrayIndex_def isDigit_def decimal_def
      digitValue_def indexBelow_def digit_char_def)

lemma hasKey_setprops:
  "hasKey (setprops ws obj) k \<longleftrightarrow> hasKey obj k \<or> k \<in> fst ` set ws"
proof (induction ws arbitrary: obj)
  case Nil
  then show ?case by simp
next
  case (Cons w ws)
  obtain k1 v1 where w: "w = (k1, v1)" by (cases w)
  show ?case
    unfolding w setprops.simps Cons.IH hasKey_setprop by auto
qed

lemma setprops_same:
  "\<forall>kv \<in> set ws. hasKey obj (fst kv) \<and> lookupProp obj (fst kv) = snd kv \<Longrightarrow>
   setprops ws obj = obj"
proof (induction ws arbitrary: obj)
  case Nil
  then show ?case by simp
next
  case (Cons w ws)
  obtain k v where w: "w = (k, v)" by (cases w)
  from Cons.prems have "setprop k v obj = obj"
    by (intro setprop_same) (auto simp: w)
  with Cons show ?case by (simp add: w)
qed

lemma lookupProp_setprops:
  "distinct (map fst ws) \<Longrightarrow>
   lookupProp (setprops ws obj) k =
     (case map_of ws k of Some v \<Rightarrow> v | None \<Rightarrow> lookupProp obj k)"
proof (induction ws arbitrary: obj)
  case Nil
  then show ?case by simp
next
  case (Cons w ws)
  obtain k1 v1 where w: "w = (k1, v1)" by (cases w)
  from Cons.prems have d: "distinct (map fst ws)" and n: "k1 \<notin> fst ` set ws"
    by (auto simp: w)
  have "map_of ws k1 = None" using n by (simp add: map_of_eq_None_iff)
  then show ?case
    using Cons.IH [OF d, of "setprop k1 v1 obj"]
    by (auto simp: w lookupProp_setprop split: option.splits)
qed

lemma filter_setprops:
  "(\<And>k v'. k \<in> fst ` set ws \<Longrightarrow> \<not> P (k, v')) \<Longrightarrow> filter P (setprops ws obj) = filter P obj"
proof (induction ws arbitrary: obj)
  case Nil
  then show ?case by simp
next
  case (Cons w ws)
  obtain k v where w: "w = (k, v)" by (cases w)
  have "filter P (setprop k v obj) = filter P obj"
    by (rule filter_setprop) (simp add: Cons.prems w)
  moreover have "filter P (setprops ws (setprop k v obj)) = filter P (setprop k v obj)"
    by (rule Cons.IH) (simp add: Cons.prems)
  ultimately show ?case by (simp add: w)
qed

lemma mapE_Cons_Inr:
  "mapE f (x # xs) = Inr ys \<longleftrightarrow> (\<exists>y zs. f x = Inr y \<and> mapE f xs = Inr zs \<and> ys = y # zs)"
  by (auto split: sum.splits)

lemma mapE_Inr_iff: "mapE f xs = Inr ys \<longleftrightarrow> list_all2 (\<lambda>x y. f x = Inr y) xs ys"
proof (induction xs arbitrary: ys)
  case Nil
  then show ?case by auto
next
  case (Cons x xs)
  show ?case
    unfolding mapE_Cons_Inr list_all2_Cons1 Cons.IH by auto
qed

lemma mapE_fixed: "(\<And>x. x \<in> set xs \<Longrightarrow> f x = Inr x) \<Longrightarrow> mapE f xs = Inr xs"
  by (induction xs) auto

lemma mapE_Inr_length: "mapE f xs = Inr ys \<Longrightarrow> length ys = length xs"
  by (simp add: mapE_Inr_iff list_all2_lengthD)

lemma mapE_Inr_set: "mapE f xs = Inr ys \<Longrightarrow> y \<in> set ys \<Longrightarrow> \<exists>x \<in> set xs. f x = Inr y"
  unfolding mapE_Inr_iff
  by (induction xs ys rule: list_all2_induct) auto

lemma mapE_idem:
  "(\<And>x y. x \<in> set xs \<Longrightarrow> f x = Inr y \<Longrightarrow> f y = Inr y) \<Longrightarrow> mapE f xs = Inr ys \<Longrightarrow> mapE f ys = Inr ys"
proof (induction xs arbitrary: ys)
  case Nil
  then show ?case by simp
next
  case (Cons x xs)
  from Cons.prems(2) obtain y zs where y: "f x = Inr y" "mapE f xs = Inr zs" "ys = y # zs"
    unfolding mapE_Cons_Inr by blast
  have "f y = Inr y" using Cons.prems(1) [of x y] y by simp
  moreover have "mapE f zs = Inr zs"
  proof (rule Cons.IH [OF _ y(2)])
    fix a b
    assume "a \<in> set xs" "f a = Inr b"
    then show "f b = Inr b" using Cons.prems(1) [of a b] by simp
  qed
  ultimately show ?case by (simp add: y)
qed

lemma mapE_map_total:
  "(\<And>x. x \<in> set xs \<Longrightarrow> f x = Inr (g x)) \<Longrightarrow> mapE f xs = Inr (map g xs)"
  by (induction xs) auto

section \<open>Migration\<close>

lemma applyRule_Inr:
  "applyRule r kf = Inr w \<longleftrightarrow>
     (\<exists>v v'. getprop r (fst kf) = Inr v \<and> snd kf v = Inr v' \<and> w = (fst kf, v'))"
  by (auto simp: applyRule_def split: sum.splits)

lemma writes_keys:
  "mapE (applyRule r) rules = Inr writes \<Longrightarrow> map fst writes = map fst rules"
  unfolding mapE_Inr_iff
  by (induction rules writes rule: list_all2_induct) (auto simp: applyRule_Inr)

lemma migrateWith_idem:
  assumes d: "distinct (map fst rules)"
    and st: "\<And>k f. (k, f) \<in> set rules \<Longrightarrow> stable f"
    and m: "migrateWith rules r = Inr r'"
  shows "migrateWith rules r' = Inr r'"
proof -
  from m obtain writes where w: "mapE (applyRule r) rules = Inr writes"
    and r': "r' = JObj (setprops writes (ownProps r))"
    by (auto simp: migrateWith_def split: sum.splits)
  let ?obj = "setprops writes (ownProps r)"
  have keys: "map fst writes = map fst rules" by (rule writes_keys [OF w])
  then have dw: "distinct (map fst writes)" using d by simp
  have look: "lookupProp ?obj k = v" "hasKey ?obj k" if "(k, v) \<in> set writes" for k v
  proof -
    from that dw have "map_of writes k = Some v" by simp
    then show "lookupProp ?obj k = v" by (simp add: lookupProp_setprops [OF dw])
    from that show "hasKey ?obj k" by (force simp: hasKey_setprops)
  qed
  have "list_all2 (\<lambda>kf w. applyRule r kf = Inr w) rules writes"
    using w by (simp add: mapE_Inr_iff)
  then have "list_all2 (\<lambda>kf w. applyRule r' kf = Inr w) rules writes"
  proof (rule list.rel_mono_strong)
    fix kf w
    assume kf: "kf \<in> set rules" and w: "w \<in> set writes" and a: "applyRule r kf = Inr w"
    from a obtain v v' where v: "getprop r (fst kf) = Inr v" "snd kf v = Inr v'" "w = (fst kf, v')"
      by (auto simp: applyRule_Inr)
    have "stable (snd kf)" using st [of "fst kf" "snd kf"] kf by simp
    then have "snd kf v' = Inr v'" using v(2) by (auto simp: stable_def)
    moreover have "lookupProp ?obj (fst kf) = v'" using look(1) [of "fst kf" v'] w v(3) by simp
    ultimately show "applyRule r' kf = Inr w"
      by (simp add: applyRule_def r' v(3))
  qed
  then have "mapE (applyRule r') rules = Inr writes" by (simp add: mapE_Inr_iff)
  moreover have "setprops writes ?obj = ?obj"
    by (rule setprops_same) (auto simp: look)
  ultimately show ?thesis by (simp add: migrateWith_def r')
qed

lemma stable_orDefault: "stable (orDefault d)"
  by (auto simp: stable_def orDefault_def orElse_def)

lemma stable_arrayOrEmpty: "stable arrayOrEmpty"
  by (auto simp: stable_def arrayOrEmpty_def split: if_splits)

lemma wordCardRules_stable: "(k, f) \<in> set wordCardRules \<Longrightarrow> stable f"
  by (auto simp: wordCardRules_def stable_orDefault stable_arrayOrEmpty)

lemma migrateWordCard_idem: "migrateWordCard c = Inr c' \<Longrightarrow> migrateWordCard c' = Inr c'"
  unfolding migrateWordCard_def
  by (rule migrateWith_idem [where r = c]) (auto simp: wordCardRules_stable, simp add: wordCardRules_def)

lemma stable_migrateCards: "stable migrateCards"
  unfolding stable_def
proof (intro allI impI)
  fix v v'
  assume a: "migrateCards v = Inr v'"
  show "migrateCards v' = Inr v'"
  proof (cases v)
    case (JArr cs)
    with a obtain cs' where cs': "mapE migrateWordCard cs = Inr cs'" "v' = JArr cs'"
      by (auto simp: migrateCards_def split: sum.splits)
    have "mapE migrateWordCard cs' = Inr cs'"
      by (rule mapE_idem [OF _ cs'(1)]) (rule migrateWordCard_idem)
    then show ?thesis by (simp add: migrateCards_def cs'(2))
  qed (use a in \<open>auto simp: migrateCards_def\<close>)
qed

lemma deckRules_stable: "(k, f) \<in> set deckRules \<Longrightarrow> stable f"
  by (auto simp: deckRules_def stable_orDefault stable_migrateCards)

lemma migrateDeck_idem: "migrateDeck d = Inr d' \<Longrightarrow> migrateDeck d' = Inr d'"
  unfolding migrateDeck_def
  by (rule migrateWith_idem [where r = d]) (auto simp: deckRules_stable, simp add: deckRules_def)

lemma storyRules_stable: "(k, f) \<in> set storyRules \<Longrightarrow> stable f"
  by (auto simp: storyRules_def stable_orDefault)

lemma migrateStory_idem: "migrateStory s = Inr s' \<Longrightarrow> migrateStory s' = Inr s'"
  unfolding migrateStory_def
  by (rule migrateWith_idem [where r = s]) (auto simp: storyRules_stable, simp add: storyRules_def)

lemma twice_idem: "(\<And>r'. f r = Inr r' \<Longrightarrow> f r' = Inr r') \<Longrightarrow> twice f r = f r"
  by (cases "f r") (auto simp: twice_def)

lemma list_all2_pick:
  "list_all2 P xs ys \<Longrightarrow> x \<in> set xs \<Longrightarrow> \<exists>y \<in> set ys. P x y"
  by (induction xs ys rule: list_all2_induct) auto

lemma migrateWith_obj:
  assumes d: "distinct (map fst rules)"
    and m: "migrateWith rules (JObj kvs) = Inr r'"
  shows "\<exists>kvs'. r' = JObj kvs' \<and>
           (\<forall>k. hasKey kvs k \<longrightarrow> hasKey kvs' k) \<and>
           (\<forall>k. k \<notin> fst ` set rules \<longrightarrow> lookupProp kvs' k = lookupProp kvs k) \<and>
           (\<forall>kf \<in> set rules. snd kf (lookupProp kvs (fst kf)) = Inr (lookupProp kvs' (fst kf))) \<and>
           filter (\<lambda>kv. fst kv \<notin> fst ` set rules) kvs' = filter (\<lambda>kv. fst kv \<notin> fst ` set rules) kvs"
proof -
  from m obtain writes where w: "mapE (applyRule (JObj kvs)) rules = Inr writes"
    and r': "r' = JObj (setprops writes kvs)"
    by (auto simp: migrateWith_def split: sum.splits)
  let ?obj = "setprops writes kvs"
  have keys: "map fst writes = map fst rules" by (rule writes_keys [OF w])
  then have dw: "distinct (map fst writes)" using d by simp
  have skeys: "fst ` set writes = fst ` set rules"
  proof -
    have "set (map fst writes) = set (map fst rules)" using keys by simp
    then show ?thesis by simp
  qed
  have 1: "\<forall>k. hasKey kvs k \<longrightarrow> hasKey ?obj k" by (simp add: hasKey_setprops)
  have 2: "\<forall>k. k \<notin> fst ` set rules \<longrightarrow> lookupProp ?obj k = lookupProp kvs k"
  proof (intro allI impI)
    fix k assume "k \<notin> fst ` set rules"
    then have "map_of writes k = None" by (simp add: map_of_eq_None_iff skeys)
    then show "lookupProp ?obj k = lookupProp kvs k" by (simp add: lookupProp_setprops [OF dw])
  qed
  have 3: "\<forall>kf \<in> set rules. snd kf (lookupProp kvs (fst kf)) = Inr (lookupProp ?obj (fst kf))"
  proof
    fix kf assume kf: "kf \<in> set rules"
    have "list_all2 (\<lambda>kf w. applyRule (JObj kvs) kf = Inr w) rules writes"
      using w by (simp add: mapE_Inr_iff)
    from list_all2_pick [OF this kf]
    obtain w where ww: "w \<in> set writes" "applyRule (JObj kvs) kf = Inr w" by blast
    then obtain v' where v': "snd kf (lookupProp kvs (fst kf)) = Inr v'" "w = (fst kf, v')"
      by (auto simp: applyRule_Inr)
    have "map_of writes (fst kf) = Some v'" using ww(1) v'(2) dw by simp
    then have "lookupProp ?obj (fst kf) = v'" by (simp add: lookupProp_setprops [OF dw])
    with v' show "snd kf (lookupProp kvs (fst kf)) = Inr (lookupProp ?obj (fst kf))" by simp
  qed
  have 4: "filter (\<lambda>kv. fst kv \<notin> fst ` set rules) ?obj = filter (\<lambda>kv. fst kv \<notin> fst ` set rules) kvs"
    by (rule filter_setprops) (simp add: skeys)
  show ?thesis
    by (rule exI [of _ ?obj]) (intro conjI r' 1 2 3 4)
qed

lemma migrateWordCard_obj_total: "\<exists>kvs'. migrateWordCard (JObj kvs) = Inr (JObj kvs')"
  by (simp add: migrateWordCard_def migrateWith_def wordCardRules_def applyRule_def
      orDefault_def arrayOrEmpty_def)

lemma migrateStory_obj_total: "\<exists>kvs'. migrateStory (JObj kvs) = Inr (JObj kvs')"
  by (simp add: migrateStory_def migrateWith_def storyRules_def applyRule_def orDefault_def)

lemma distinct_wordCardRules: "distinct (map fst wordCardRules)"
  by (simp add: wordCardRules_def)

lemma distinct_deckRules: "distinct (map fst deckRules)"
  by (simp add: deckRules_def)

lemma distinct_storyRules: "distinct (map fst storyRules)"
  by (simp add: storyRules_def)

lemma migrateWordCard_fields:
  assumes "migrateWordCard (JObj kvs) = Inr (JObj kvs')"
  shows "(\<forall>k. hasKey kvs k \<longrightarrow> hasKey kvs' k) \<and>
         extraFields wordCardRules kvs' = extraFields wordCardRules kvs \<and>
         (\<forall>k \<in> set arrayFields.
            lookupProp kvs' k = (if isArray (lookupProp kvs k) then lookupProp kvs k else JArr [])) \<and>
         lookupProp kvs' ''phonetics'' = orElse (lookupProp kvs ''phonetics'') defaultPhonetics \<and>
         lookupProp kvs' ''partOfSpeech'' = orElse (lookupProp kvs ''partOfSpeech'') defaultPartOfSpeech \<and>
         lookupProp kvs' ''targetLanguage'' = orElse (lookupProp kvs ''targetLanguage'') (JStr ''en'') \<and>
         lookupProp kvs' ''nativeLanguage'' = orElse (lookupProp kvs ''nativeLanguage'') (JStr ''zh'')"
proof -
  from migrateWith_obj [OF distinct_wordCardRules assms [unfolded migrateWordCard_def]]
  have 1: "\<forall>k. hasKey kvs k \<longrightarrow> hasKey kvs' k"
    and 3: "\<forall>kf \<in> set wordCardRules. snd kf (lookupProp kvs (fst kf)) = Inr (lookupProp kvs' (fst kf))"
    and 4: "filter (\<lambda>kv. fst kv \<notin> fst ` set wordCardRules) kvs' =
            filter (\<lambda>kv. fst kv \<notin> fst ` set wordCardRules) kvs"
    by auto
  from 4 have x4: "extraFields wordCardRules kvs' = extraFields wordCardRules kvs"
    by (simp add: extraFields_def)
  from 3 have 5: "\<forall>k \<in> set arrayFields.
            lookupProp kvs' k = (if isArray (lookupProp kvs k) then lookupProp kvs k else JArr [])"
    by (simp add: wordCardRules_def arrayFields_def arrayOrEmpty_def)
  from 3 have 6: "lookupProp kvs' ''phonetics'' = orElse (lookupProp kvs ''phonetics'') defaultPhonetics"
    "lookupProp kvs' ''partOfSpeech'' = orElse (lookupProp kvs ''partOfSpeech'') defaultPartOfSpeech"
    "lookupProp kvs' ''targetLanguage'' = orElse (lookupProp kvs ''targetLanguage'') (JStr ''en'')"
    "lookupProp kvs' ''nativeLanguage'' = orElse (lookupProp kvs ''nativeLanguage'') (JStr ''zh'')"
    by (simp_all add: wordCardRules_def orDefault_def)
  from 1 x4 5 6 show ?thesis by simp
qed

lemma migrateCards_isArray: "migrateCards v = Inr v' \<Longrightarrow> isArray v'"
  by (auto simp: migrateCards_def split: json.splits sum.splits)

lemma migrateDeck_fields:
  assumes "migrateDeck (JObj kvs) = Inr d'"
  shows "\<exists>kvs'. d' = JObj kvs' \<and> (\<forall>k. hasKey kvs k \<longrightarrow> hasKey kvs' k) \<and>
           extraFields deckRules kvs' = extraFields deckRules kvs \<and>
           isArray (lookupProp kvs' ''cards'') \<and>
           lookupProp kvs' ''targetLanguage'' = orElse (lookupProp kvs ''targetLanguage'') (JStr ''en'') \<and>
           lookupProp kvs' ''nativeLanguage'' = orElse (lookupProp kvs ''nativeLanguage'') (JStr ''zh'')"
proof -
  from migrateWith_obj [OF distinct_deckRules assms [unfolded migrateDeck_def]]
  obtain kvs' where d': "d' = JObj kvs'" and 1: "\<forall>k. hasKey kvs k \<longrightarrow> hasKey kvs' k"
    and 3: "\<forall>kf \<in> set deckRules. snd kf (lookupProp kvs (fst kf)) = Inr (lookupProp kvs' (fst kf))"
    and 4: "filter (\<lambda>kv. fst kv \<notin> fst ` set deckRules) kvs' =
            filter (\<lambda>kv. fst kv \<notin> fst ` set deckRules) kvs"
    by auto
  from 4 have x4: "extraFields deckRules kvs' = extraFields deckRules kvs"
    by (simp add: extraFields_def)
  from 3 have "migrateCards (lookupProp kvs ''cards'') = Inr (lookupProp kvs' ''cards'')"
    by (simp add: deckRules_def)
  then have 5: "isArray (lookupProp kvs' ''cards'')"
    by (rule migrateCards_isArray)
  from 3 have 6: 
    "lookupProp kvs' ''targetLanguage'' = orElse (lookupProp kvs ''targetLanguage'') (JStr ''en'')"
    "lookupProp kvs' ''nativeLanguage'' = orElse (lookupProp kvs ''nativeLanguage'') (JStr ''zh'')"
    by (simp_all add: deckRules_def orDefault_def)
  from d' 1 x4 5 6 show ?thesis by simp
qed

lemma migrateStory_fields:
  assumes "migrateStory (JObj kvs) = Inr (JObj kvs')"
  shows "(\<forall>k. hasKey kvs k \<longrightarrow> hasKey kvs' k) \<and>
           extraFields storyRules kvs' = extraFields storyRules kvs \<and>
           lookupProp kvs' ''targetLanguage'' = orElse (lookupProp kvs ''targetLanguage'') (JStr ''en'') \<and>
           lookupProp kvs' ''nativeLanguage'' = orElse (lookupProp kvs ''nativeLanguage'') (JStr ''zh'')"
proof -
  from migrateWith_obj [OF distinct_storyRules assms [unfolded migrateStory_def]]
  have 1: "\<forall>k. hasKey kvs k \<longrightarrow> hasKey kvs' k"
    and 3: "\<forall>kf \<in> set storyRules. snd kf (lookupProp kvs (fst kf)) = Inr (lookupProp kvs' (fst kf))"
    and 4: "filter (\<lambda>kv. fst kv \<notin> fst ` set storyRules) kvs' =
            filter (\<lambda>kv. fst kv \<notin> fst ` set storyRules) kvs"
    by auto
  from 4 have x4: "extraFields storyRules kvs' = extraFields storyRules kvs"
    by (simp add: extraFields_def)
  from 3 have 6: 
    "lookupProp kvs' ''targetLanguage'' = orElse (lookupProp kvs ''targetLanguage'') (JStr ''en'')"
    "lookupProp kvs' ''nativeLanguage'' = orElse (lookupProp kvs ''nativeLanguage'') (JStr ''zh'')"
    by (simp_all add: storyRules_def orDefault_def)
  from 1 x4 6 show ?thesis by simp
qed

lemma migrateDeck_cards:
  assumes "migrateDeck (JObj kvs) = Inr d'"
  shows "\<exists>kvs'. d' = JObj kvs' \<and> migrateCards (lookupProp kvs ''cards'') = Inr (lookupProp kvs' ''cards'')"
proof -
  from migrateWith_obj [OF distinct_deckRules assms [unfolded migrateDeck_def]]
  obtain kvs' where d': "d' = JObj kvs'" 
    and 3: "\<forall>kf \<in> set deckRules. snd kf (lookupProp kvs (fst kf)) = Inr (lookupProp kvs' (fst kf))"
    by auto
  from 3 have "migrateCards (lookupProp kvs ''cards'') = Inr (lookupProp kvs' ''cards'')"
    by (simp add: deckRules_def)
  with d' show ?thesis by simp
qed

lemma migrateWith_keys:
  assumes "migrateWith rules (JObj kvs) = Inr (JObj kvs')"
  shows "hasKey kvs' k \<longleftrightarrow> hasKey kvs k \<or> k \<in> fst ` set rules"
proof -
  from assms obtain writes where w: "mapE (applyRule (JObj kvs)) rules = Inr writes"
    and r': "kvs' = setprops writes kvs"
    by (auto simp: migrateWith_def split: sum.splits)
  have "set (map fst writes) = set (map fst rules)" using writes_keys [OF w] by simp
  then have "fst ` set writes = fst ` set rules" by simp
  then show ?thesis by (simp add: r' hasKey_setprops)
qed

lemma kept_wordCard:
  assumes "migrateWordCard (JObj kvs) = Inr (JObj kvs')"
  shows "kept wordCardFields kvs kvs'"
proof -
  have n: "fst ` set wordCardRules = set wordCardFields"
    by (simp add: wordCardRules_def wordCardFields_def)
  from migrateWith_keys [OF assms [unfolded migrateWordCard_def]]
    migrateWith_obj [OF distinct_wordCardRules assms [unfolded migrateWordCard_def]]
  show ?thesis unfolding kept_def n by simp
qed

lemma kept_deck:
  assumes "migrateDeck (JObj kvs) = Inr (JObj kvs')"
  shows "kept deckFields kvs kvs'"
proof -
  have n: "fst ` set deckRules = set deckFields"
    by (simp add: deckRules_def deckFields_def)
  from migrateWith_keys [OF assms [unfolded migrateDeck_def]]
    migrateWith_obj [OF distinct_deckRules assms [unfolded migrateDeck_def]]
  show ?thesis unfolding kept_def n by simp
qed

lemma kept_story:
  assumes "migrateStory (JObj kvs) = Inr (JObj kvs')"
  shows "kept storyFields kvs kvs'"
proof -
  have n: "fst ` set storyRules = set storyFields"
    by (simp add: storyRules_def storyFields_def)
  from migrateWith_keys [OF assms [unfolded migrateStory_def]]
    migrateWith_obj [OF distinct_storyRules assms [unfolded migrateStory_def]]
  show ?thesis unfolding kept_def n by simp
qed

lemma migrateDeck_succeeds_iff:
  "(\<exists>d'. migrateDeck (JObj kvs) = Inr d') \<longleftrightarrow> (\<exists>c. migrateCards (lookupProp kvs ''cards'') = Inr c)"
  by (auto simp: migrateDeck_def migrateWith_def deckRules_def applyRule_def orDefault_def
      split: sum.splits)

text \<open>
  Claim C5. Migration is idempotent: for every value, and so for every word card, deck
  and story record, migrating the result of a migration returns it unchanged (and a
  migration that throws has thrown by the first run). On a record, each migration keeps
  every property of the input that is not among the fields it writes, in the input's
  order, and the result has exactly the input's keys and those fields. Each writes the
  two language fields: the input's value when truthy, else \<^verbatim>\<open>en\<close> for the target
  and \<^verbatim>\<open>zh\<close> for the native language. The word-card migration writes the
  phonetics and part-of-speech objects (the input's when truthy, else the defaults, so
  both are present afterwards) and each list field (the input's array, else the empty
  array). The deck migration succeeds exactly when the migration of its cards does, and
  then \<^verbatim>\<open>cards\<close> is that result: an array, and the empty array when the input's
  was none.
\<close>

theorem migration_idempotent_and_merging:
  "twice migrateWordCard r = migrateWordCard r \<and>
   twice migrateDeck r = migrateDeck r \<and>
   twice migrateStory r = migrateStory r \<and>
   (\<exists>kvs'. migrateWordCard (JObj kvs) = Inr (JObj kvs') \<and>
      kept wordCardFields kvs kvs' \<and> languagesFilled kvs kvs' \<and>
      lookupProp kvs' ''phonetics'' =
        orElse (lookupProp kvs ''phonetics'') (JObj [(''uk'', JStr []), (''us'', JStr [])]) \<and>
      lookupProp kvs' ''partOfSpeech'' =
        orElse (lookupProp kvs ''partOfSpeech'')
          (JObj [(''abbreviation'', JStr []), (''nativeName'', JStr [])]) \<and>
      truthy (lookupProp kvs' ''phonetics'') \<and> truthy (lookupProp kvs' ''partOfSpeech'') \<and>
      (\<forall>k \<in> set arrayFields.
         lookupProp kvs' k = (if isArray (lookupProp kvs k) then lookupProp kvs k else JArr []))) \<and>
   ((\<exists>d'. migrateDeck (JObj kvs) = Inr d') \<longleftrightarrow>
      (\<exists>c. migrateCards (lookupProp kvs ''cards'') = Inr c)) \<and>
   (\<forall>d'. migrateDeck (JObj kvs) = Inr d' \<longrightarrow>
      (\<exists>kvs'. d' = JObj kvs' \<and>
         kept deckFields kvs kvs' \<and> languagesFilled kvs kvs' \<and>
         migrateCards (lookupProp kvs ''cards'') = Inr (lookupProp kvs' ''cards'') \<and>
         isArray (lookupProp kvs' ''cards'') \<and>
         (\<not> isArray (lookupProp kvs ''cards'') \<longrightarrow> lookupProp kvs' ''cards'' = JArr []))) \<and>
   (\<exists>kvs'. migrateStory (JObj kvs) = Inr (JObj kvs') \<and>
      kept storyFields kvs kvs' \<and> languagesFilled kvs kvs')"
proof -
  have 1: "twice migrateWordCard r = migrateWordCard r"
    by (rule twice_idem) (rule migrateWordCard_idem)
  have 2: "twice migrateDeck r = migrateDeck r"
    by (rule twice_idem) (rule migrateDeck_idem)
  have 3: "twice migrateStory r = migrateStory r"
    by (rule twice_idem) (rule migrateStory_idem)
  obtain wkvs where w: "migrateWordCard (JObj kvs) = Inr (JObj wkvs)"
    using migrateWordCard_obj_total by blast
  note wf = migrateWordCard_fields [OF w]
  have wp: "lookupProp wkvs ''phonetics'' =
        orElse (lookupProp kvs ''phonetics'') (JObj [(''uk'', JStr []), (''us'', JStr [])])"
    "lookupProp wkvs ''partOfSpeech'' =
        orElse (lookupProp kvs ''partOfSpeech'')
          (JObj [(''abbreviation'', JStr []), (''nativeName'', JStr [])])"
    using wf by (simp_all add: defaultPhonetics_def defaultPartOfSpeech_def)
  have wt: "truthy (lookupProp wkvs ''phonetics'')" "truthy (lookupProp wkvs ''partOfSpeech'')"
    unfolding wp by (simp_all add: orElse_def)
  have wl: "languagesFilled kvs wkvs" using wf by (simp add: languagesFilled_def)
  have wa: "\<forall>k \<in> set arrayFields.
         lookupProp wkvs k = (if isArray (lookupProp kvs k) then lookupProp kvs k else JArr [])"
    using wf by blast
  have 4: "\<exists>kvs'. migrateWordCard (JObj kvs) = Inr (JObj kvs') \<and>
      kept wordCardFields kvs kvs' \<and> languagesFilled kvs kvs' \<and>
      lookupProp kvs' ''phonetics'' =
        orElse (lookupProp kvs ''phonetics'') (JObj [(''uk'', JStr []), (''us'', JStr [])]) \<and>
      lookupProp kvs' ''partOfSpeech'' =
        orElse (lookupProp kvs ''partOfSpeech'')
          (JObj [(''abbreviation'', JStr []), (''nativeName'', JStr [])]) \<and>
      truthy (lookupProp kvs' ''phonetics'') \<and> truthy (lookupProp kvs' ''partOfSpeech'') \<and>
      (\<forall>k \<in> set arrayFields.
         lookupProp kvs' k = (if isArray (lookupProp kvs k) then lookupProp kvs k else JArr []))"
    by (rule exI [of _ wkvs]) (intro conjI w kept_wordCard [OF w] wl wp wt wa)
  have 5: "\<forall>d'. migrateDeck (JObj kvs) = Inr d' \<longrightarrow>
      (\<exists>kvs'. d' = JObj kvs' \<and>
         kept deckFields kvs kvs' \<and> languagesFilled kvs kvs' \<and>
         migrateCards (lookupProp kvs ''cards'') = Inr (lookupProp kvs' ''cards'') \<and>
         isArray (lookupProp kvs' ''cards'') \<and>
         (\<not> isArray (lookupProp kvs ''cards'') \<longrightarrow> lookupProp kvs' ''cards'' = JArr []))"
  proof (intro allI impI)
    fix d' assume d: "migrateDeck (JObj kvs) = Inr d'"
    from migrateDeck_fields [OF d] obtain dkvs where k: "d' = JObj dkvs"
      and l: "languagesFilled kvs dkvs" and a: "isArray (lookupProp dkvs ''cards'')"
      by (auto simp: languagesFilled_def)
    from migrateDeck_cards [OF d] k
    have c: "migrateCards (lookupProp kvs ''cards'') = Inr (lookupProp dkvs ''cards'')" by simp
    have e: "\<not> isArray (lookupProp kvs ''cards'') \<longrightarrow> lookupProp dkvs ''cards'' = JArr []"
      using c by (cases "lookupProp kvs ''cards''") (auto simp: migrateCards_def)
    from d k have "kept deckFields kvs dkvs" by (intro kept_deck) simp
    with k l a c e
    show "\<exists>kvs'. d' = JObj kvs' \<and>
         kept deckFields kvs kvs' \<and> languagesFilled kvs kvs' \<and>
         migrateCards (lookupProp kvs ''cards'') = Inr (lookupProp kvs' ''cards'') \<and>
         isArray (lookupProp kvs' ''cards'') \<and>
         (\<not> isArray (lookupProp kvs ''cards'') \<longrightarrow> lookupProp kvs' ''cards'' = JArr [])"
      by blast
  qed
  obtain skvs where s: "migrateStory (JObj kvs) = Inr (JObj skvs)"
    using migrateStory_obj_total by blast
  have sl: "languagesFilled kvs skvs"
    using migrateStory_fields [OF s] by (simp add: languagesFilled_def)
  have 6: "\<exists>kvs'. migrateStory (JObj kvs) = Inr (JObj kvs') \<and>
      kept storyFields kvs kvs' \<and> languagesFilled kvs kvs'"
    by (rule exI [of _ skvs]) (intro conjI s kept_story [OF s] sl)
  from 1 2 3 4 migrateDeck_succeeds_iff 5 6 show ?thesis by (intro conjI)
qed

text \<open>
  The legacy card, deck and story above: the missing fields are added, the list field
  that was no array and the falsy language are replaced, the unknown fields are kept.
\<close>

theorem migration_witness:
  "migrateWordCard (JObj legacyCard) = Inr (JObj legacyCardMigrated) \<and>
   twice migrateWordCard (JObj legacyCard) = Inr (JObj legacyCardMigrated) \<and>
   migrateDeck (JObj legacyDeck) = Inr (JObj legacyDeckMigrated) \<and>
   twice migrateDeck (JObj legacyDeck) = Inr (JObj legacyDeckMigrated) \<and>
   migrateStory (JObj legacyStory) = Inr (JObj legacyStoryMigrated) \<and>
   twice migrateStory (JObj legacyStory) = Inr (JObj legacyStoryMigrated) \<and>
   kept storyFields legacyStory legacyStoryMigrated \<and>
   languagesFilled legacyStory legacyStoryMigrated \<and>
   \<not> isArray (lookupProp legacyDeck ''cards'') \<and>
   lookupProp legacyDeckMigrated ''cards'' = JArr [] \<and>
   list_all (\<lambda>k. lookupProp legacyCardMigrated k = JArr []) arrayFields"
proof -
  have w: "migrateWordCard (JObj legacyCard) = Inr (JObj legacyCardMigrated)"
    by (simp add: migrateWordCard_def migrateWith_def wordCardRules_def applyRule_def
        orDefault_def arrayOrEmpty_def orElse_def legacyCard_def legacyCardMigrated_def
        defaultPhonetics_def defaultPartOfSpeech_def)
  have d: "migrateDeck (JObj legacyDeck) = Inr (JObj legacyDeckMigrated)"
    by (simp add: migrateDeck_def migrateWith_def deckRules_def applyRule_def
        orDefault_def migrateCards_def orElse_def legacyDeck_def legacyDeckMigrated_def)
  have s: "migrateStory (JObj legacyStory) = Inr (JObj legacyStoryMigrated)"
    by (simp add: migrateStory_def migrateWith_def storyRules_def applyRule_def
        orDefault_def orElse_def legacyStory_def legacyStoryMigrated_def)
  note tw = migration_idempotent_and_merging [of "JObj legacyCard" legacyCard]
  note td = migration_idempotent_and_merging [of "JObj legacyDeck" legacyDeck]
  note ts = migration_idempotent_and_merging [of "JObj legacyStory" legacyStory]
  from tw w have w2: "twice migrateWordCard (JObj legacyCard) = Inr (JObj legacyCardMigrated)"
    and wa: "\<forall>k \<in> set arrayFields. lookupProp legacyCardMigrated k =
               (if isArray (lookupProp legacyCard k) then lookupProp legacyCard k else JArr [])"
    by auto
  from wa have wl: "list_all (\<lambda>k. lookupProp legacyCardMigrated k = JArr []) arrayFields"
    by (simp add: list_all_iff arrayFields_def legacyCard_def)
  from td d have d2: "twice migrateDeck (JObj legacyDeck) = Inr (JObj legacyDeckMigrated)"
    and dc: "\<not> isArray (lookupProp legacyDeck ''cards'') \<longrightarrow>
             lookupProp legacyDeckMigrated ''cards'' = JArr []"
    by auto
  have dn: "\<not> isArray (lookupProp legacyDeck ''cards'')" by (simp add: legacyDeck_def)
  from ts s have s2: "twice migrateStory (JObj legacyStory) = Inr (JObj legacyStoryMigrated)"
    and sk: "kept storyFields legacyStory legacyStoryMigrated"
    and sl: "languagesFilled legacyStory legacyStoryMigrated"
    by auto
  from w w2 d d2 s s2 sk sl dn dc wl show ?thesis by simp
qed

section \<open>Decks that hold identifiers\<close>

lemma migrateWordCard_JStr: "migrateWordCard (JStr s) = Inr (spreadId s)"
  by (simp add: migrateWordCard_def migrateWith_def wordCardRules_def applyRule_def
      orDefault_def arrayOrEmpty_def orElse_def spreadId_def defaultWrites_def)

lemma migrateCards_ids: "migrateCards (JArr (map JStr ids)) = Inr (JArr (map spreadId ids))"
proof -
  have "mapE migrateWordCard (map JStr ids) = Inr (map spreadId ids)"
    by (induction ids) (auto simp: migrateWordCard_JStr)
  then show ?thesis by (simp add: migrateCards_def)
qed

lemma jsonify_undefined_iff: "jsonify v = JUndefined \<longleftrightarrow> v = JUndefined"
  by (cases v) auto

lemma lookupProp_jsonify:
  "lookupProp kvs k \<noteq> JUndefined \<Longrightarrow>
   lookupProp (filter (\<lambda>kv. snd kv \<noteq> JUndefined) (map (map_prod id jsonify) kvs)) k =
     jsonify (lookupProp kvs k)"
  by (induction kvs) (auto simp: jsonify_undefined_iff)

lemma jsonify_strings: "jsonify (JArr (map JStr ids)) = JArr (map JStr ids)"
  by (induction ids) (auto simp: undefinedToNull_def)

lemma migrateDeck_obj_ok:
  assumes "migrateCards (lookupProp kvs ''cards'') = Inr v"
  shows "\<exists>d'. migrateDeck (JObj kvs) = Inr d'"
  using assms
  by (simp add: migrateDeck_def migrateWith_def deckRules_def applyRule_def orDefault_def)

text \<open>
  Claim C10. \<^verbatim>\<open>migrateDeck\<close> runs \<^verbatim>\<open>migrateWordCard\<close> over every element of
  \<^verbatim>\<open>cards\<close> whenever that is an array, whatever the elements are. So for a deck
  whose \<^verbatim>\<open>cards\<close> is an array of identifier strings, \<^verbatim>\<open>getDecks\<close> after
  \<^verbatim>\<open>saveDecks\<close> returns, in place of each string, the object made of the string's
  characters and the migration defaults; the list read back equals the list saved only
  when it is empty.
\<close>

theorem getDecks_after_saveDecks_rewrites_ids:
  assumes cards: "lookupProp kvs ''cards'' = JArr (map JStr ids)"
  shows "(\<forall>cs d'. lookupProp kvs ''cards'' = JArr cs \<and> migrateDeck (JObj kvs) = Inr d' \<longrightarrow>
            (\<exists>cs'. propOf d' ''cards'' = JArr cs' \<and> mapE migrateWordCard cs = Inr cs')) \<and>
         (\<exists>kvs'. getDecks (saveDecks [JObj kvs] st) = [JObj kvs'] \<and>
            lookupProp kvs' ''cards'' = JArr (map spreadId ids) \<and>
            (lookupProp kvs' ''cards'' = lookupProp kvs ''cards'' \<longleftrightarrow> ids = []))"
proof (intro conjI allI impI)
  fix cs d'
  assume a: "lookupProp kvs ''cards'' = JArr cs \<and> migrateDeck (JObj kvs) = Inr d'"
  from migrateDeck_cards [of kvs d'] a obtain kvs' where
    k: "d' = JObj kvs'" "migrateCards (JArr cs) = Inr (lookupProp kvs' ''cards'')" by auto
  from k(2) obtain cs' where "mapE migrateWordCard cs = Inr cs'" "lookupProp kvs' ''cards'' = JArr cs'"
    by (auto simp: migrateCards_def split: sum.splits)
  then show "\<exists>cs'. propOf d' ''cards'' = JArr cs' \<and> mapE migrateWordCard cs = Inr cs'"
    by (simp add: k(1) propOf_def)
next
  let ?jkvs = "filter (\<lambda>kv. snd kv \<noteq> JUndefined) (map (map_prod id jsonify) kvs)"
  have jc: "lookupProp ?jkvs ''cards'' = JArr (map JStr ids)"
    using lookupProp_jsonify [of kvs "''cards''"] cards by (simp add: jsonify_strings del: jsonify.simps)
  have "migrateCards (lookupProp ?jkvs ''cards'') = Inr (JArr (map spreadId ids))"
    by (simp only: jc migrateCards_ids)
  from migrateDeck_obj_ok [OF this] obtain d' where d': "migrateDeck (JObj ?jkvs) = Inr d'" ..
  from migrateDeck_cards [OF d'] obtain kvs' where
    k: "d' = JObj kvs'" "migrateCards (lookupProp ?jkvs ''cards'') = Inr (lookupProp kvs' ''cards'')"
    by auto
  from k(2) have c': "lookupProp kvs' ''cards'' = JArr (map spreadId ids)"
    by (simp only: jc migrateCards_ids) simp
  have g: "getDecks (saveDecks [JObj kvs] st) = [JObj kvs']"
    using d' k(1)
    by (simp add: getDecks_def saveDecks_def readCollection_def parseOrEmpty_def mapArray_def
        stringify_def undefinedToNull_def)
  have e: "lookupProp kvs' ''cards'' = lookupProp kvs ''cards'' \<longleftrightarrow> ids = []"
    unfolding c' cards by (cases ids) (auto simp: spreadId_def)
  show "\<exists>kvs'. getDecks (saveDecks [JObj kvs] st) = [JObj kvs'] \<and>
            lookupProp kvs' ''cards'' = JArr (map spreadId ids) \<and>
            (lookupProp kvs' ''cards'' = lookupProp kvs ''cards'' \<longleftrightarrow> ids = [])"
    by (rule exI [of _ kvs']) (intro conjI g c' e)
qed

text \<open>The deck above, with one identifier, is read back with an object in its place.\<close>

theorem getDecks_after_saveDecks_witness:
  "lookupProp currentDeck ''cards'' = JArr (map JStr [''ab'']) \<and>
   getDecks (saveDecks [JObj currentDeck] Map.empty) = [JObj currentDeckReadBack] \<and>
   lookupProp currentDeckReadBack ''cards'' \<noteq> lookupProp currentDeck ''cards''"
proof -
  have c: "lookupProp currentDeck ''cards'' = JArr (map JStr [''ab''])"
    by (simp add: currentDeck_def)
  have s: "spreadId ''ab'' = JObj ([(''0'', JStr ''a''), (''1'', JStr ''b'')] @ defaultWrites)"
    by (simp add: spreadId_def defaultWrites_def digit_char_def)
  have g: "getDecks (saveDecks [JObj currentDeck] Map.empty) = [JObj currentDeckReadBack]"
    by (simp add: getDecks_def saveDecks_def readCollection_def parseOrEmpty_def mapArray_def
        stringify_def undefinedToNull_def currentDeck_def currentDeckReadBack_def
        migrateDeck_def migrateWith_def deckRules_def applyRule_def orDefault_def orElse_def
        migrateCards_def migrateWordCard_JStr s DECKS_KEY_def)
  from getDecks_after_saveDecks_rewrites_ids [OF c, of Map.empty] c g
  show ?thesis by (auto simp: currentDeckReadBack_def s)
qed

section \<open>What the home page holds\<close>

lemma migrateWith_object: "migrateWith rules r = Inr r' \<Longrightarrow> \<exists>kvs. r' = JObj kvs"
  by (auto simp: migrateWith_def split: sum.splits)

lemma readCollection_elements:
  assumes "x \<in> set (readCollection f item)"
  shows "\<exists>y. f y = Inr x"
proof (cases "parseOrEmpty item")
  case (Inl e)
  with assms show ?thesis by (simp add: readCollection_def)
next
  case (Inr v)
  note v = this
  show ?thesis
  proof (cases "mapArray f v")
    case (Inl e)
    with assms v show ?thesis by (simp add: readCollection_def)
  next
    case (Inr xs)
    with assms v have x: "x \<in> set xs" by (simp add: readCollection_def)
    from Inr obtain ys where "mapE f ys = Inr xs"
      by (auto simp: mapArray_def split: sum.splits)
    from mapE_Inr_set [OF this x] show ?thesis by blast
  qed
qed

lemma getDecks_records:
  assumes "d \<in> set (getDecks st)"
  shows "d \<noteq> JNull \<and> d \<noteq> JUndefined \<and> isArray (propOf d ''cards'')"
proof -
  from readCollection_elements [OF assms [unfolded getDecks_def]]
  obtain y where y: "migrateDeck y = Inr d" ..
  from migrateWith_object [OF y [unfolded migrateDeck_def]] obtain kvs where d: "d = JObj kvs" ..
  from migrateDeck_idem [OF y] have "migrateDeck (JObj kvs) = Inr (JObj kvs)" by (simp add: d)
  from migrateDeck_fields [OF this] have "isArray (lookupProp kvs ''cards'')" by auto
  then show ?thesis by (simp add: d propOf_def)
qed

lemma getWords_records:
  assumes "x \<in> set (getWords st)"
  shows "x \<noteq> JNull \<and> x \<noteq> JUndefined"
proof -
  from readCollection_elements [OF assms [unfolded getWords_def]]
  obtain y where y: "migrateWordCard y = Inr x" ..
  from migrateWith_object [OF y [unfolded migrateWordCard_def]] show ?thesis by auto
qed

lemma getStories_records:
  assumes "x \<in> set (getStories st)"
  shows "x \<noteq> JNull \<and> x \<noteq> JUndefined"
proof -
  from readCollection_elements [OF assms [unfolded getStories_def]]
  obtain y where y: "migrateStory y = Inr x" ..
  from migrateWith_object [OF y [unfolded migrateStory_def]] show ?thesis by auto
qed

lemma reloadData_records:
  "(\<forall>d \<in> set (decks (reloadData st)). d \<noteq> JNull \<and> d \<noteq> JUndefined \<and> isArray (propOf d ''cards'')) \<and>
   (\<forall>s \<in> set (stories (reloadData st)). s \<noteq> JNull \<and> s \<noteq> JUndefined) \<and>
   (\<forall>x \<in> set (myWords (reloadData st)). x \<noteq> JNull \<and> x \<noteq> JUndefined)"
  using getDecks_records [of _ st] getStories_records [of _ st] getWords_records [of _ st]
  by (simp add: reloadData_def)

section \<open>Deleting a deck\<close>

lemma filterE_total: "(\<And>x. x \<in> set xs \<Longrightarrow> p x = Inr (q x)) \<Longrightarrow> filterE p xs = Inr (filter q xs)"
  by (induction xs) auto

lemma getprop_propOf: "v \<noteq> JNull \<Longrightarrow> v \<noteq> JUndefined \<Longrightarrow> getprop v k = Inr (propOf v k)"
  by (cases v) (auto simp: propOf_def)

lemma propIsNot_total:
  "v \<noteq> JNull \<Longrightarrow> v \<noteq> JUndefined \<Longrightarrow> propIsNot k s v = Inr (propOf v k \<noteq> JStr s)"
  by (simp add: propIsNot_def getprop_propOf)

lemma jsonify_list_fixed:
  "(\<And>x. x \<in> set xs \<Longrightarrow> jsonify x = x \<and> x \<noteq> JUndefined) \<Longrightarrow> jsonify (JArr xs) = JArr xs"
  by (induction xs) (auto simp: undefinedToNull_def)

lemma readCollection_saved:
  assumes "\<And>x. x \<in> set xs \<Longrightarrow> migrate x = Inr x \<and> jsonify x = x \<and> x \<noteq> JUndefined"
  shows "readCollection migrate (Some (stringify (JArr xs))) = xs"
proof -
  have "jsonify (JArr xs) = JArr xs" by (rule jsonify_list_fixed) (use assms in blast)
  moreover have "mapE migrate xs = Inr xs" by (rule mapE_fixed) (use assms in blast)
  ultimately show ?thesis
    by (simp add: readCollection_def stringify_def parseOrEmpty_def mapArray_def del: jsonify.simps)
qed

lemma keys_distinct: "DECKS_KEY \<noteq> WORDS_KEY" "DECKS_KEY \<noteq> STORIES_KEY" "WORDS_KEY \<noteq> STORIES_KEY"
  by (simp_all add: DECKS_KEY_def WORDS_KEY_def STORIES_KEY_def)

text \<open>
  Claim C7. Deleting a deck (the user confirms, and the component's decks and stories
  are neither \<^verbatim>\<open>null\<close> nor \<^verbatim>\<open>undefined\<close>, which holds of every record
  \<^verbatim>\<open>reloadData\<close> reads): the handler keeps
  exactly the decks whose \<^verbatim>\<open>id\<close> is not \<open>D\<close> and the stories whose
  \<^verbatim>\<open>deckId\<close> is not \<open>D\<close>, writes both lists to their keys, and touches no
  other key: the words item, and so what \<^verbatim>\<open>getWords\<close> reads, is as before. When
  the records are migrated JSON values, the stored collections read back as exactly the
  lists kept.
\<close>

theorem handleDeleteDeck_cascade:
  assumes od: "\<forall>d \<in> set (decks h). d \<noteq> JNull \<and> d \<noteq> JUndefined"
    and os: "\<forall>s \<in> set (stories h). s \<noteq> JNull \<and> s \<noteq> JUndefined"
  shows "\<exists>h' st'. handleDeleteDeck D True (h, st) = (None, h', st') \<and>
           decks h' = filter (\<lambda>d. propOf d ''id'' \<noteq> JStr D) (decks h) \<and>
           stories h' = filter (\<lambda>s. propOf s ''deckId'' \<noteq> JStr D) (stories h) \<and>
           myWords h' = myWords h \<and>
           st' DECKS_KEY = Some (stringify (JArr (decks h'))) \<and>
           st' STORIES_KEY = Some (stringify (JArr (stories h'))) \<and>
           (\<forall>k. k \<noteq> DECKS_KEY \<and> k \<noteq> STORIES_KEY \<longrightarrow> st' k = st k) \<and>
           st' WORDS_KEY = st WORDS_KEY \<and>
           getWords st' = getWords st \<and>
           ((\<forall>d \<in> set (decks h). migrateDeck d = Inr d \<and> jsonify d = d) \<longrightarrow>
              getDecks st' = filter (\<lambda>d. propOf d ''id'' \<noteq> JStr D) (decks h)) \<and>
           ((\<forall>s \<in> set (stories h). migrateStory s = Inr s \<and> jsonify s = s) \<longrightarrow>
              getStories st' = filter (\<lambda>s. propOf s ''deckId'' \<noteq> JStr D) (stories h))"
proof -
  let ?ds = "filter (\<lambda>d. propOf d ''id'' \<noteq> JStr D) (decks h)"
  let ?ss = "filter (\<lambda>s. propOf s ''deckId'' \<noteq> JStr D) (stories h)"
  let ?h' = "h\<lparr>decks := ?ds, stories := ?ss\<rparr>"
  let ?st' = "saveStories ?ss (saveDecks ?ds st)"
  have fd: "filterE (propIsNot ''id'' D) (decks h) = Inr ?ds"
    by (rule filterE_total) (use od in \<open>simp add: propIsNot_total\<close>)
  have fs: "filterE (propIsNot ''deckId'' D) (stories h) = Inr ?ss"
    by (rule filterE_total) (use os in \<open>simp add: propIsNot_total\<close>)
  have run: "handleDeleteDeck D True (h, st) = (None, ?h', ?st')"
    by (simp add: handleDeleteDeck_def fd fs Let_def)
  have sd: "?st' DECKS_KEY = Some (stringify (JArr ?ds))"
    by (simp add: saveStories_def saveDecks_def keys_distinct)
  have ss: "?st' STORIES_KEY = Some (stringify (JArr ?ss))"
    by (simp add: saveStories_def saveDecks_def)
  have other: "\<forall>k. k \<noteq> DECKS_KEY \<and> k \<noteq> STORIES_KEY \<longrightarrow> ?st' k = st k"
    by (simp add: saveStories_def saveDecks_def)
  have sw: "?st' WORDS_KEY = st WORDS_KEY"
    using other keys_distinct by metis
  have gw: "getWords ?st' = getWords st"
    by (simp add: getWords_def sw)
  have gd: "(\<forall>d \<in> set (decks h). migrateDeck d = Inr d \<and> jsonify d = d) \<longrightarrow> getDecks ?st' = ?ds"
  proof
    assume a: "\<forall>d \<in> set (decks h). migrateDeck d = Inr d \<and> jsonify d = d"
    have "readCollection migrateDeck (Some (stringify (JArr ?ds))) = ?ds"
      by (rule readCollection_saved) (use a od in auto)
    then show "getDecks ?st' = ?ds" by (simp add: getDecks_def sd)
  qed
  have gs: "(\<forall>s \<in> set (stories h). migrateStory s = Inr s \<and> jsonify s = s) \<longrightarrow> getStories ?st' = ?ss"
  proof
    assume a: "\<forall>s \<in> set (stories h). migrateStory s = Inr s \<and> jsonify s = s"
    have "readCollection migrateStory (Some (stringify (JArr ?ss))) = ?ss"
      by (rule readCollection_saved) (use a os in auto)
    then show "getStories ?st' = ?ss" by (simp add: getStories_def ss)
  qed
  show ?thesis
    apply (rule exI [of _ ?h'])
    apply (rule exI [of _ ?st'])
    apply (intro conjI run sd [simplified] ss [simplified] other sw gw)
    using sd ss gd gs by simp_all
qed

lemmas migrate_defs = migrateDeck_def migrateStory_def migrateWordCard_def migrateWith_def
  deckRules_def storyRules_def wordCardRules_def applyRule_def orDefault_def arrayOrEmpty_def
  orElse_def migrateCards_def

lemmas store_defs = getDecks_def getStories_def getWords_def saveDecks_def saveStories_def
  saveWords_def readCollection_def parseOrEmpty_def mapArray_def stringify_def undefinedToNull_def
  DECKS_KEY_def WORDS_KEY_def STORIES_KEY_def

lemma deck_fixed: "migrateDeck deckA = Inr deckA" "migrateDeck deckB = Inr deckB"
  by (simp_all add: deckA_def deckB_def migrate_defs)

lemma story_fixed: "migrateStory storyA = Inr storyA" "migrateStory storyB = Inr storyB"
  by (simp_all add: storyA_def storyB_def migrate_defs)

lemma word_fixed: "migrateWordCard (JObj legacyCardMigrated) = Inr (JObj legacyCardMigrated)"
  by (simp add: legacyCardMigrated_def migrate_defs defaultPhonetics_def defaultPartOfSpeech_def)

lemma json_fixed: "jsonify deckA = deckA" "jsonify deckB = deckB" "jsonify storyA = storyA" "jsonify storyB = storyB"
  by (simp_all add: deckA_def deckB_def storyA_def storyB_def undefinedToNull_def)

text \<open>
  A store with two decks, a story of each and a word; the component has read it. Deleting
  the first deck leaves the second deck, its story, and the word.
\<close>

theorem handleDeleteDeck_witness:
  "reloadData homeStore = homeState \<and>
   handleDeleteDeck ''d1'' True (homeState, homeStore) =
     (None, homeState\<lparr>decks := [deckB], stories := [storyB]\<rparr>,
      homeStore(DECKS_KEY \<mapsto> Text (JArr [deckB]), STORIES_KEY \<mapsto> Text (JArr [storyB]))) \<and>
   getDecks (homeStore(DECKS_KEY \<mapsto> Text (JArr [deckB]), STORIES_KEY \<mapsto> Text (JArr [storyB]))) = [deckB] \<and>
   getStories (homeStore(DECKS_KEY \<mapsto> Text (JArr [deckB]), STORIES_KEY \<mapsto> Text (JArr [storyB]))) = [storyB] \<and>
   getWords (homeStore(DECKS_KEY \<mapsto> Text (JArr [deckB]), STORIES_KEY \<mapsto> Text (JArr [storyB]))) = [JObj legacyCardMigrated]"
proof -
  have r: "reloadData homeStore = homeState"
    by (simp add: reloadData_def homeStore_def homeState_def getDecks_def getStories_def getWords_def
        readCollection_def parseOrEmpty_def mapArray_def deck_fixed story_fixed word_fixed
        DECKS_KEY_def WORDS_KEY_def STORIES_KEY_def)
  have od: "\<forall>d \<in> set (decks homeState). d \<noteq> JNull \<and> d \<noteq> JUndefined"
    by (simp add: homeState_def deckA_def deckB_def)
  have os: "\<forall>s \<in> set (stories homeState). s \<noteq> JNull \<and> s \<noteq> JUndefined"
    by (simp add: homeState_def storyA_def storyB_def)
  have md: "\<forall>d \<in> set (decks homeState). migrateDeck d = Inr d \<and> jsonify d = d"
    by (simp add: homeState_def deck_fixed json_fixed del: jsonify.simps)
  have ms: "\<forall>s \<in> set (stories homeState). migrateStory s = Inr s \<and> jsonify s = s"
    by (simp add: homeState_def story_fixed json_fixed del: jsonify.simps)
  have fd: "filter (\<lambda>d. propOf d ''id'' \<noteq> JStr ''d1'') (decks homeState) = [deckB]"
    by (simp add: homeState_def deckA_def deckB_def propOf_def)
  have fs: "filter (\<lambda>s. propOf s ''deckId'' \<noteq> JStr ''d1'') (stories homeState) = [storyB]"
    by (simp add: homeState_def storyA_def storyB_def propOf_def)
  have sj: "stringify (JArr [deckB]) = Text (JArr [deckB])" "stringify (JArr [storyB]) = Text (JArr [storyB])"
    by (simp_all add: stringify_def deckB_def storyB_def undefinedToNull_def)
  note T = handleDeleteDeck_cascade [OF od os, of "''d1''" homeStore, unfolded fd fs]
  from T md ms
  obtain h' st' where a: "handleDeleteDeck ''d1'' True (homeState, homeStore) = (None, h', st')"
    and b: "decks h' = [deckB]" "stories h' = [storyB]" "myWords h' = myWords homeState"
    and c: "st' DECKS_KEY = Some (Text (JArr [deckB]))" "st' STORIES_KEY = Some (Text (JArr [storyB]))"
      "\<forall>k. k \<noteq> DECKS_KEY \<and> k \<noteq> STORIES_KEY \<longrightarrow> st' k = homeStore k"
    and d: "getWords st' = getWords homeStore" "getDecks st' = [deckB]" "getStories st' = [storyB]"
    by (auto simp: sj)
  have h': "h' = homeState\<lparr>decks := [deckB], stories := [storyB]\<rparr>"
    using b by simp
  have st': "st' = homeStore(DECKS_KEY \<mapsto> Text (JArr [deckB]), STORIES_KEY \<mapsto> Text (JArr [storyB]))"
    using c by (intro ext) auto
  have gw: "getWords homeStore = [JObj legacyCardMigrated]"
    using r by (simp add: reloadData_def homeState_def)
  from r a d show ?thesis unfolding h' st' gw by simp
qed

section \<open>Deleting a word\<close>

lemma loaded_deck_cards:
  assumes "d \<in> set (getDecks st)"
  shows "\<exists>kvs cs. d = JObj kvs \<and> hasKey kvs ''cards'' \<and> lookupProp kvs ''cards'' = JArr cs \<and>
           (\<forall>c \<in> set cs. \<exists>ckvs. c = JObj ckvs)"
proof -
  from readCollection_elements [OF assms [unfolded getDecks_def]]
  obtain y where y: "migrateDeck y = Inr d" ..
  from migrateWith_object [OF y [unfolded migrateDeck_def]] obtain kvs where d: "d = JObj kvs" ..
  from migrateDeck_idem [OF y] have fx: "migrateDeck (JObj kvs) = Inr (JObj kvs)" by (simp add: d)
  from kept_deck [OF fx]
  have "hasKey kvs ''cards'' \<longleftrightarrow> hasKey kvs ''cards'' \<or> ''cards'' \<in> set deckFields"
    unfolding kept_def by blast
  then have k: "hasKey kvs ''cards''" by (simp add: deckFields_def)
  from migrateDeck_cards [OF fx]
  have m: "migrateCards (lookupProp kvs ''cards'') = Inr (lookupProp kvs ''cards'')" by simp
  from migrateCards_isArray [OF m] obtain cs where cs: "lookupProp kvs ''cards'' = JArr cs"
    by (cases "lookupProp kvs ''cards''") auto
  from m have e: "mapE migrateWordCard cs = Inr cs"
    by (auto simp: cs migrateCards_def split: sum.splits)
  have "\<forall>c \<in> set cs. \<exists>ckvs. c = JObj ckvs"
  proof
    fix c assume "c \<in> set cs"
    from mapE_Inr_set [OF e this] obtain x where "migrateWordCard x = Inr c" by blast
    from migrateWith_object [OF this [unfolded migrateWordCard_def]] show "\<exists>ckvs. c = JObj ckvs" .
  qed
  with d k cs show ?thesis by blast
qed

lemma withoutCard_loaded:
  assumes "d \<in> set (getDecks st)"
  shows "withoutCard w d = Inr d"
proof -
  from loaded_deck_cards [OF assms] obtain kvs cs where d: "d = JObj kvs"
    and k: "hasKey kvs ''cards''" and cs: "lookupProp kvs ''cards'' = JArr cs"
    and o: "\<forall>c \<in> set cs. \<exists>ckvs. c = JObj ckvs" by blast
  have f: "filter (\<lambda>i. i \<noteq> JStr w) cs = cs"
    using o by (auto intro!: filter_True)
  have "setprop ''cards'' (JArr cs) kvs = kvs"
    by (rule setprop_same [OF k cs])
  then show ?thesis by (simp add: withoutCard_def d cs f)
qed

lemma handleDeleteWord_loaded:
  "handleDeleteWord w True (reloadData st, st) =
     (None,
      (reloadData st)\<lparr>myWords := filter (\<lambda>x. propOf x ''id'' \<noteq> JStr w) (getWords st)\<rparr>,
      saveDecks (getDecks st) (saveWords (filter (\<lambda>x. propOf x ''id'' \<noteq> JStr w) (getWords st)) st))"
proof -
  have fw: "filterE (propIsNot ''id'' w) (getWords st) =
              Inr (filter (\<lambda>x. propOf x ''id'' \<noteq> JStr w) (getWords st))"
    by (rule filterE_total) (use getWords_records [of _ st] in \<open>simp add: propIsNot_total\<close>)
  have md: "mapE (withoutCard w) (getDecks st) = Inr (getDecks st)"
    by (rule mapE_fixed) (rule withoutCard_loaded)
  show ?thesis
    by (simp add: handleDeleteWord_def reloadData_def fw md Let_def)
qed

text \<open>
  Claim C8 does not hold of the program. The handler does filter the identifier out of
  \<^verbatim>\<open>cards\<close> (its comment: remove from all decks), but the decks it filters are
  those the page has read through \<^verbatim>\<open>getDecks\<close>, whose migration has put an object
  in the place of every element of \<^verbatim>\<open>cards\<close>. No element is the identifier, so the
  handler writes the decks back as it read them. At the store the creation page leaves
  for a deck of two words: after the first word is deleted it is gone from the words,
  while the stored deck holds two objects in \<^verbatim>\<open>cards\<close>, the characters of each
  identifier under their indices with the migration defaults, neither of them the
  identifier of the second word.
\<close>

theorem handleDeleteWord_keeps_loaded_cards:
  "memberStore DECKS_KEY = Some (Text (JArr [idDeck ''d1'' [''w1'', ''w2'']])) \<and>
   arrayProp (idDeck ''d1'' [''w1'', ''w2'']) ''cards'' = [JStr ''w1'', JStr ''w2''] \<and>
   memberStore WORDS_KEY = Some (Text (JArr [fullWord ''w1'' ''apple'', fullWord ''w2'' ''pear''])) \<and>
   reloadData memberStore =
     \<lparr>decks = [loadedDeck], stories = [],
        myWords = [fullWord ''w1'' ''apple'', fullWord ''w2'' ''pear'']\<rparr> \<and>
   handleDeleteWord ''w1'' True (reloadData memberStore, memberStore) =
     (None,
      \<lparr>decks = [loadedDeck], stories = [], myWords = [fullWord ''w2'' ''pear'']\<rparr>,
      memberStore(WORDS_KEY \<mapsto> Text (JArr [fullWord ''w2'' ''pear'']),
                  DECKS_KEY \<mapsto> Text (JArr [loadedDeck]))) \<and>
   arrayProp loadedDeck ''cards'' = [spreadId ''w1'', spreadId ''w2''] \<and>
   spreadId ''w1'' = JObj ([(''0'', JStr ''w''), (''1'', JStr ''1'')] @ defaultWrites) \<and>
   spreadId ''w2'' = JObj ([(''0'', JStr ''w''), (''1'', JStr ''2'')] @ defaultWrites) \<and>
   arrayProp loadedDeck ''cards'' \<noteq> [JStr ''w2''] \<and>
   JStr ''w2'' \<notin> set (arrayProp loadedDeck ''cards'')"
proof -
  have s1: "spreadId ''w1'' = JObj ([(''0'', JStr ''w''), (''1'', JStr ''1'')] @ defaultWrites)"
    and s2: "spreadId ''w2'' = JObj ([(''0'', JStr ''w''), (''1'', JStr ''2'')] @ defaultWrites)"
    by (simp_all add: spreadId_def defaultWrites_def digit_char_def)
  have md: "migrateDeck (idDeck ''d1'' [''w1'', ''w2'']) = Inr loadedDeck"
    by (simp add: idDeck_def loadedDeck_def migrateDeck_def migrateWith_def deckRules_def
        applyRule_def orDefault_def orElse_def migrateCards_def migrateWordCard_JStr)
  have mw: "migrateWordCard (fullWord i x) = Inr (fullWord i x)" for i x
    by (simp add: fullWord_def migrateWordCard_def migrateWith_def wordCardRules_def
        applyRule_def orDefault_def arrayOrEmpty_def orElse_def defaultWrites_def
        defaultPhonetics_def defaultPartOfSpeech_def)
  have jd: "stringify (JArr [idDeck ''d1'' [''w1'', ''w2'']]) = Text (JArr [idDeck ''d1'' [''w1'', ''w2'']])"
    by (simp add: stringify_def idDeck_def undefinedToNull_def)
  have jw: "stringify (JArr [fullWord ''w1'' ''apple'', fullWord ''w2'' ''pear'']) =
              Text (JArr [fullWord ''w1'' ''apple'', fullWord ''w2'' ''pear''])"
    by (simp add: stringify_def fullWord_def defaultWrites_def defaultPhonetics_def
        defaultPartOfSpeech_def undefinedToNull_def)
  have sd: "memberStore DECKS_KEY = Some (Text (JArr [idDeck ''d1'' [''w1'', ''w2'']]))"
    and sw: "memberStore WORDS_KEY = Some (Text (JArr [fullWord ''w1'' ''apple'', fullWord ''w2'' ''pear'']))"
    and ss: "memberStore STORIES_KEY = None"
    by (simp_all add: memberStore_def saveWords_def saveDecks_def jd jw keys_distinct
        keys_distinct [symmetric])
  have gd: "getDecks memberStore = [loadedDeck]"
    by (simp add: getDecks_def sd readCollection_def parseOrEmpty_def mapArray_def md)
  have gw: "getWords memberStore = [fullWord ''w1'' ''apple'', fullWord ''w2'' ''pear'']"
    by (simp add: getWords_def sw readCollection_def parseOrEmpty_def mapArray_def mw)
  have gs: "getStories memberStore = []"
    by (simp add: getStories_def ss readCollection_def parseOrEmpty_def mapArray_def)
  have r: "reloadData memberStore =
     \<lparr>decks = [loadedDeck], stories = [],
        myWords = [fullWord ''w1'' ''apple'', fullWord ''w2'' ''pear'']\<rparr>"
    by (simp add: reloadData_def gd gw gs)
  have fw: "filter (\<lambda>x. propOf x ''id'' \<noteq> JStr ''w1'') (getWords memberStore) = [fullWord ''w2'' ''pear'']"
    by (simp add: gw fullWord_def propOf_def)
  have jl: "stringify (JArr [loadedDeck]) = Text (JArr [loadedDeck])"
    by (simp add: stringify_def loadedDeck_def s1 s2 defaultWrites_def defaultPhonetics_def
        defaultPartOfSpeech_def undefinedToNull_def)
  have jp: "stringify (JArr [fullWord ''w2'' ''pear'']) = Text (JArr [fullWord ''w2'' ''pear''])"
    by (simp add: stringify_def fullWord_def defaultWrites_def defaultPhonetics_def
        defaultPartOfSpeech_def undefinedToNull_def)
  have h: "handleDeleteWord ''w1'' True (reloadData memberStore, memberStore) =
     (None,
      \<lparr>decks = [loadedDeck], stories = [], myWords = [fullWord ''w2'' ''pear'']\<rparr>,
      memberStore(WORDS_KEY \<mapsto> Text (JArr [fullWord ''w2'' ''pear'']),
                  DECKS_KEY \<mapsto> Text (JArr [loadedDeck])))"
    unfolding handleDeleteWord_loaded fw
    by (simp add: r gd saveDecks_def saveWords_def jl jp)
  have c: "arrayProp loadedDeck ''cards'' = [spreadId ''w1'', spreadId ''w2'']"
    by (simp add: loadedDeck_def arrayProp_def propOf_def)
  have a: "arrayProp (idDeck ''d1'' [''w1'', ''w2'']) ''cards'' = [JStr ''w1'', JStr ''w2'']"
    by (simp add: idDeck_def arrayProp_def propOf_def)
  have n: "arrayProp loadedDeck ''cards'' \<noteq> [JStr ''w2'']"
    "JStr ''w2'' \<notin> set (arrayProp loadedDeck ''cards'')"
    by (simp_all add: c s1 s2)
  from sd a sw r h c s1 s2 n show ?thesis by (intro conjI)
qed

section \<open>Import\<close>

lemma handleFileImport_cases:
  "handleFileImport positive file confirmed (h, st) =
     (case file of
        NoFile \<Rightarrow> (None, h, st)
      | NotText \<Rightarrow> (Some (ImportFailed FileContentNotString), h, st)
      | FileText EmptyText \<Rightarrow> (Some (ImportFailed SyntaxError), h, st)
      | FileText Garbled \<Rightarrow> (Some (ImportFailed SyntaxError), h, st)
      | FileText (Text payload) \<Rightarrow>
          if objectPayload payload then
            if confirmed then
              (case importedCollections positive payload of
                 Inl e \<Rightarrow> (Some (ImportFailed e), h, st)
               | Inr (ds, ws) \<Rightarrow>
                   (Some ImportSuccess,
                    reloadData (importedStore ds ws (arrayProp payload ''stories'') st),
                    importedStore ds ws (arrayProp payload ''stories'') st))
            else (None, h, st)
          else (Some (ImportFailed InvalidImportFile), h, st))"
  by (simp add: handleFileImport_def objectPayload_def importedStore_def saveDecks_def
      saveWords_def saveStories_def Let_def
      split: upload.splits stored.splits sum.splits prod.splits)

text \<open>
  Claim C6, as amended. The import validates that the parsed payload is a non-array
  object. Whatever the file and the answer to the confirmation, the handler either
  leaves the component and the store exactly as they were, or overwrites all three
  collections and reloads: never a part of them. A payload that parses but is no such
  object alerts the invalid-file error. A text that does not parse alerts the parser's
  error, and an object payload on which the reading of the decks and words throws
  alerts that error; both leave the store as it was, as does declining the
  confirmation. An object payload that is confirmed and read without a throw overwrites
  the decks, the words and the stories.
\<close>

theorem handleFileImport_all_or_nothing:
  assumes r: "handleFileImport positive file confirmed (h, st) = (a, h', st')"
  shows "((a \<noteq> Some ImportSuccess \<and> h' = h \<and> st' = st) \<or>
          (a = Some ImportSuccess \<and>
           (\<exists>ds ws ss. st' = importedStore ds ws ss st \<and> h' = reloadData st'))) \<and>
         (\<forall>payload. file = FileText (Text payload) \<and> \<not> objectPayload payload \<longrightarrow>
            a = Some (ImportFailed InvalidImportFile) \<and> st' = st) \<and>
         (file = FileText Garbled \<or> file = FileText EmptyText \<longrightarrow>
            a = Some (ImportFailed SyntaxError) \<and> st' = st) \<and>
         (\<forall>payload e. file = FileText (Text payload) \<and> objectPayload payload \<and> confirmed \<and>
              importedCollections positive payload = Inl e \<longrightarrow>
            a = Some (ImportFailed e) \<and> st' = st) \<and>
         (\<forall>payload. file = FileText (Text payload) \<and> objectPayload payload \<and> \<not> confirmed \<longrightarrow>
            a = None \<and> st' = st) \<and>
         (\<forall>payload ds ws. file = FileText (Text payload) \<and> objectPayload payload \<and> confirmed \<and>
              importedCollections positive payload = Inr (ds, ws) \<longrightarrow>
            a = Some ImportSuccess \<and>
            st' = importedStore ds ws (arrayProp payload ''stories'') st \<and>
            h' = reloadData st')"
  using r unfolding handleFileImport_cases
  by (auto split: upload.splits stored.splits sum.splits prod.splits if_splits)

lemma backup_collections: "importedCollections never backupPayload = Inr ([deckB], [])"
  by (simp add: importedCollections_def backupPayload_def arrayProp_def propOf_def oldFormat_def
      deckB_def)

text \<open>
  A backup with one deck, one story and no words, imported over the store above: all
  three collections are replaced.
\<close>

theorem handleFileImport_witness:
  "objectPayload backupPayload \<and>
   handleFileImport never (FileText (Text backupPayload)) True (homeState, homeStore) =
     (Some ImportSuccess,
      \<lparr>decks = [deckB], stories = [storyB], myWords = []\<rparr>,
      [DECKS_KEY \<mapsto> Text (JArr [deckB]), STORIES_KEY \<mapsto> Text (JArr [storyB]),
       WORDS_KEY \<mapsto> Text (JArr [])])"
proof -
  have o: "objectPayload backupPayload"
    by (simp add: objectPayload_def backupPayload_def)
  obtain a h' st' where r:
    "handleFileImport never (FileText (Text backupPayload)) True (homeState, homeStore) = (a, h', st')"
    by (cases "handleFileImport never (FileText (Text backupPayload)) True (homeState, homeStore)")
  from handleFileImport_all_or_nothing [OF r] o backup_collections
  have a: "a = Some ImportSuccess"
    and s: "st' = importedStore [deckB] [] (arrayProp backupPayload ''stories'') homeStore"
    and h: "h' = reloadData st'"
    by auto
  have st: "st' = [DECKS_KEY \<mapsto> Text (JArr [deckB]), STORIES_KEY \<mapsto> Text (JArr [storyB]),
       WORDS_KEY \<mapsto> Text (JArr [])]"
    unfolding s
    by (rule ext) (simp add: importedStore_def homeStore_def backupPayload_def arrayProp_def propOf_def
        stringify_def deckB_def storyB_def undefinedToNull_def keys_distinct)
  have "h' = \<lparr>decks = [deckB], stories = [storyB], myWords = []\<rparr>"
    unfolding h st
    by (simp add: reloadData_def getDecks_def getStories_def getWords_def readCollection_def
        parseOrEmpty_def mapArray_def deck_fixed story_fixed keys_distinct keys_distinct [symmetric])
  with r a st o show ?thesis by simp
qed

text \<open>
  The claim as stated fails in three places. A file that is not JSON alerts the parser's
  error, not the invalid-file error. An object payload whose first deck has no
  \<^verbatim>\<open>cards\<close> passes the validation and is confirmed, yet nothing is replaced: the
  test for the old format throws. And an object payload is not imported when the user
  declines.
\<close>

theorem handleFileImport_counterexample:
  "handleFileImport never (FileText Garbled) True (homeState, homeStore) =
     (Some (ImportFailed SyntaxError), homeState, homeStore) \<and>
   ImportFailed SyntaxError \<noteq> ImportFailed InvalidImportFile \<and>
   objectPayload cardlessPayload \<and>
   handleFileImport never (FileText (Text cardlessPayload)) True (homeState, homeStore) =
     (Some (ImportFailed TypeError), homeState, homeStore) \<and>
   homeStore DECKS_KEY = Some (Text (JArr [deckA, deckB])) \<and>
   handleFileImport never (FileText (Text backupPayload)) False (homeState, homeStore) =
     (None, homeState, homeStore)"
  by (simp add: handleFileImport_cases objectPayload_def cardlessPayload_def backupPayload_def
      importedCollections_def arrayProp_def propOf_def oldFormat_def homeStore_def keys_distinct)

section \<open>The loop of the batch generator\<close>

lemma processWord_skip:
  "w \<in> already \<Longrightarrow>
   processWord env tg nv ws already i w ex cards s =
     (onProgress (Skipped w (i + 1) (length ws)) s, Inr (ex, cards))"
  by (simp add: processWord_def)

lemma processWord_reuse:
  "w \<notin> already \<Longrightarrow> ex w = Some cardData \<Longrightarrow>
   processWord env tg nv ws already i w ex cards s =
     (s\<lparr>reported := reported s @ [FoundLocal w (i + 1) (length ws)], minted := Suc (minted s)\<rparr>,
      Inr (ex, cards @ [reusedCard (uuid env (minted s)) cardData]))"
  by (simp add: processWord_def onProgress_def uuidv4_def)

lemma processWord_fail:
  "w \<notin> already \<Longrightarrow> ex w = None \<Longrightarrow> generateFlashcardDataForWord env w tg nv = Inl e \<Longrightarrow>
   processWord env tg nv ws already i w ex cards s =
     (s\<lparr>reported := reported s @ [GeneratingData w (i + 1) (length ws)],
        calls := calls s @ [FlashcardCall w tg nv]\<rparr>, Inl e)"
  by (simp add: processWord_def onProgress_def remote_def)

lemma processWord_fresh:
  "w \<notin> already \<Longrightarrow> ex w = None \<Longrightarrow> generateFlashcardDataForWord env w tg nv = Inr cardData \<Longrightarrow>
   processWord env tg nv ws already i w ex cards s =
     (s\<lparr>reported := reported s @ [GeneratingData w (i + 1) (length ws), GeneratingSpeech w (i + 1) (length ws)],
        calls := calls s @ [FlashcardCall w tg nv, SpeechCall w tg],
        minted := Suc (minted s),
        store := (store s)(DRAFT_KEY \<mapsto> checkpoint ws (cards @ [generatedCard env w tg cardData s]))\<rparr>,
      Inr (ex(toLowerCase w \<mapsto> omitId (generatedCard env w tg cardData s)),
           cards @ [generatedCard env w tg cardData s]))"
  by (simp add: processWord_def onProgress_def remote_def uuidv4_def setItem_def checkpoint_def
      generatedCard_def Let_def)

lemma processWord_paths:
  obtains (skip) "w \<in> already"
  | (reuse) cardData where "w \<notin> already" "ex w = Some cardData"
  | (fail) e where "w \<notin> already" "ex w = None" "generateFlashcardDataForWord env w tg nv = Inl e"
  | (fresh) cardData where "w \<notin> already" "ex w = None"
      "generateFlashcardDataForWord env w tg nv = Inr cardData"
  by (cases "w \<in> already"; cases "ex w"; cases "generateFlashcardDataForWord env w tg nv") auto

lemma processWords_append:
  "processWords env tg nv ws already i (pre @ post) ex cards s =
     (case processWords env tg nv ws already i pre ex cards s of
        (s1, Inl e) \<Rightarrow> (s1, Inl e)
      | (s1, Inr (ex1, cards1)) \<Rightarrow>
          processWords env tg nv ws already (i + length pre) post ex1 cards1 s1)"
  by (induction pre arbitrary: i ex cards s) (auto split: prod.splits sum.splits)

text \<open>
What one pass of the loop, and the loop, may change.
\<close>

lemma processWord_frame:
  assumes "processWord env tg nv ws already i w ex cards s = (s', r)"
  shows "(\<forall>k. k \<noteq> DRAFT_KEY \<longrightarrow> store s' k = store s k) \<and>
         (\<exists>new. calls s' = calls s @ new \<and>
            (\<forall>c \<in> set new. callWord c = w \<and> w \<notin> already \<and> ex w = None))"
proof (cases rule: processWord_paths [where w = w and already = already and ex = ex and env = env and tg = tg and nv = nv])
  case skip
  with assms show ?thesis by (auto simp: processWord_skip onProgress_def)
next
  case (reuse cardData)
  with assms show ?thesis by (auto simp: processWord_reuse)
next
  case (fail e)
  with assms show ?thesis by (auto simp: processWord_fail)
next
  case (fresh cardData)
  with assms show ?thesis by (auto simp: processWord_fresh)
qed

lemma processWords_frame:
  assumes "processWords env tg nv ws already i rest ex cards s = (s', r)"
  shows "(\<forall>k. k \<noteq> DRAFT_KEY \<longrightarrow> store s' k = store s k) \<and>
         (\<exists>new. calls s' = calls s @ new \<and>
            (\<forall>c \<in> set new. callWord c \<in> set rest \<and> callWord c \<notin> already))"
  using assms
proof (induction rest arbitrary: i ex cards s)
  case Nil
  then show ?case by simp
next
  case (Cons w rest)
  obtain s1 r1 where p: "processWord env tg nv ws already i w ex cards s = (s1, r1)"
    by (cases "processWord env tg nv ws already i w ex cards s")
  note f = processWord_frame [OF p]
  show ?case
  proof (cases r1)
    case (Inl e)
    with Cons.prems p have "s' = s1" by simp
    with f show ?thesis by auto
  next
    case (Inr v)
    obtain ex1 cards1 where v: "v = (ex1, cards1)" by (cases v)
    from Cons.prems p Inr v
    have "processWords env tg nv ws already (Suc i) rest ex1 cards1 s1 = (s', r)" by simp
    from Cons.IH [OF this] f show ?thesis
      by (auto; fastforce)
  qed
qed

lemma processWords_fail_at:
  assumes pre: "processWords env tg nv ws already i pre ex cards s = (s2, Inr (ex2, cards2))"
    and w: "w \<notin> already" "ex2 w = None" "generateFlashcardDataForWord env w tg nv = Inl e"
  shows "processWords env tg nv ws already i (pre @ w # post) ex cards s =
           (s2\<lparr>reported := reported s2 @ [GeneratingData w (i + length pre + 1) (length ws)],
               calls := calls s2 @ [FlashcardCall w tg nv]\<rparr>, Inl e)"
  using w by (simp add: processWords_append pre processWord_fail)

lemma processWord_draft:
  assumes "processWord env tg nv ws already i w ex cards s = (s', r)"
  shows "(r = Inr (ex', cards') \<longrightarrow> (\<exists>more. cards' = cards @ more) \<and>
            (store s' DRAFT_KEY = store s DRAFT_KEY \<or> store s' DRAFT_KEY = Some (checkpoint ws cards'))) \<and>
         ((\<exists>e. r = Inl e) \<longrightarrow> store s' = store s)"
proof (cases rule: processWord_paths [where w = w and already = already and ex = ex and env = env and tg = tg and nv = nv])
  case skip
  with assms show ?thesis by (auto simp: processWord_skip onProgress_def)
next
  case (reuse cardData)
  with assms show ?thesis by (auto simp: processWord_reuse)
next
  case (fail e)
  with assms show ?thesis by (auto simp: processWord_fail)
next
  case (fresh cardData)
  with assms show ?thesis by (auto simp: processWord_fresh)
qed

lemma processWords_draft:
  assumes "processWords env tg nv ws already i rest ex cards s = (s', r)"
  shows "(\<forall>ex' cards'. r = Inr (ex', cards') \<longrightarrow> (\<exists>more. cards' = cards @ more)) \<and>
         (store s' DRAFT_KEY = store s DRAFT_KEY \<or>
          (\<exists>written. store s' DRAFT_KEY = Some (checkpoint ws (cards @ written)) \<and>
             (\<forall>ex' cards'. r = Inr (ex', cards') \<longrightarrow> (\<exists>more. cards' = cards @ written @ more))))"
  using assms
proof (induction rest arbitrary: i ex cards s)
  case Nil
  then show ?case by auto
next
  case (Cons w rest)
  obtain s1 r1 where p: "processWord env tg nv ws already i w ex cards s = (s1, r1)"
    by (cases "processWord env tg nv ws already i w ex cards s")
  show ?case
  proof (cases r1)
    case (Inl e)
    with Cons.prems p have "s' = s1" "r = Inl e" by simp_all
    moreover from processWord_draft [OF p] Inl have "store s1 = store s" by blast
    ultimately show ?thesis by simp
  next
    case (Inr v)
    obtain ex1 cards1 where v: "v = (ex1, cards1)" by (cases v)
    from processWord_draft [OF p, of ex1 cards1] Inr v
    obtain m1 where m1: "cards1 = cards @ m1"
      and d1: "store s1 DRAFT_KEY = store s DRAFT_KEY \<or> store s1 DRAFT_KEY = Some (checkpoint ws cards1)"
      by auto
    from Cons.prems p Inr v
    have "processWords env tg nv ws already (Suc i) rest ex1 cards1 s1 = (s', r)" by simp
    from Cons.IH [OF this]
    have a: "\<forall>ex' cards'. r = Inr (ex', cards') \<longrightarrow> (\<exists>more. cards' = cards1 @ more)"
      and b: "store s' DRAFT_KEY = store s1 DRAFT_KEY \<or>
          (\<exists>written. store s' DRAFT_KEY = Some (checkpoint ws (cards1 @ written)) \<and>
             (\<forall>ex' cards'. r = Inr (ex', cards') \<longrightarrow> (\<exists>more. cards' = cards1 @ written @ more)))"
      by auto
    have 1: "\<forall>ex' cards'. r = Inr (ex', cards') \<longrightarrow> (\<exists>more. cards' = cards @ more)"
      using a m1 by auto
    from b have 2: "store s' DRAFT_KEY = store s DRAFT_KEY \<or>
          (\<exists>written. store s' DRAFT_KEY = Some (checkpoint ws (cards @ written)) \<and>
             (\<forall>ex' cards'. r = Inr (ex', cards') \<longrightarrow> (\<exists>more. cards' = cards @ written @ more)))"
    proof
      assume e: "store s' DRAFT_KEY = store s1 DRAFT_KEY"
      from d1 show ?thesis
      proof
        assume "store s1 DRAFT_KEY = store s DRAFT_KEY"
        with e show ?thesis by simp
      next
        assume "store s1 DRAFT_KEY = Some (checkpoint ws cards1)"
        with e have "store s' DRAFT_KEY = Some (checkpoint ws (cards @ m1))" by (simp add: m1)
        moreover have "\<forall>ex' cards'. r = Inr (ex', cards') \<longrightarrow> (\<exists>more. cards' = cards @ m1 @ more)"
          using a m1 by auto
        ultimately show ?thesis by blast
      qed
    next
      assume "\<exists>written. store s' DRAFT_KEY = Some (checkpoint ws (cards1 @ written)) \<and>
             (\<forall>ex' cards'. r = Inr (ex', cards') \<longrightarrow> (\<exists>more. cards' = cards1 @ written @ more))"
      then obtain written where wr: "store s' DRAFT_KEY = Some (checkpoint ws (cards1 @ written))"
        "\<forall>ex' cards'. r = Inr (ex', cards') \<longrightarrow> (\<exists>more. cards' = cards1 @ written @ more)" by blast
      have "store s' DRAFT_KEY = Some (checkpoint ws (cards @ (m1 @ written)))"
        using wr(1) by (simp add: m1)
      moreover have "\<forall>ex' cards'. r = Inr (ex', cards') \<longrightarrow> (\<exists>more. cards' = cards @ (m1 @ written) @ more)"
        using wr(2) by (simp add: m1)
      ultimately show ?thesis by blast
    qed
    from 1 2 show ?thesis by simp
  qed
qed

lemma checkpoint_text:
  "checkpoint ws cards =
     Text (JObj [(''inputWords'', JArr (map JStr ws)), (''generatedCards'', jsonify (JArr cards))])"
proof -
  have "map undefinedToNull (map jsonify (map JStr ws)) = map JStr ws"
    by (induction ws) (auto simp: undefinedToNull_def)
  then show ?thesis
    by (simp add: checkpoint_def draftToSave_def stringify_def)
qed

lemma processWord_store_calls:
  assumes "processWord env tg nv ws already i w ex cards s = (s', r)"
  shows "(store s' = store s \<and> length (calls s') \<le> length (calls s) + 1) \<or>
         length (calls s) + 2 \<le> length (calls s')"
proof (cases rule: processWord_paths [where w = w and already = already and ex = ex and env = env and tg = tg and nv = nv])
  case skip
  with assms show ?thesis by (auto simp: processWord_skip onProgress_def)
next
  case (reuse cardData)
  with assms show ?thesis by (auto simp: processWord_reuse)
next
  case (fail e)
  with assms show ?thesis by (auto simp: processWord_fail)
next
  case (fresh cardData)
  with assms show ?thesis by (auto simp: processWord_fresh)
qed

lemma processWords_store_calls:
  assumes "processWords env tg nv ws already i rest ex cards s = (s', r)"
  shows "store s' = store s \<or> length (calls s) + 2 \<le> length (calls s')"
  using assms
proof (induction rest arbitrary: i ex cards s)
  case Nil
  then show ?case by simp
next
  case (Cons w rest)
  obtain s1 r1 where p: "processWord env tg nv ws already i w ex cards s = (s1, r1)"
    by (cases "processWord env tg nv ws already i w ex cards s")
  note a = processWord_store_calls [OF p]
  show ?case
  proof (cases r1)
    case (Inl e)
    with Cons.prems p have "s' = s1" by simp
    with a show ?thesis by auto
  next
    case (Inr v)
    obtain ex1 cards1 where v: "v = (ex1, cards1)" by (cases v)
    from Cons.prems p Inr v
    have q: "processWords env tg nv ws already (Suc i) rest ex1 cards1 s1 = (s', r)" by simp
    from processWords_frame [OF q] have "length (calls s1) \<le> length (calls s')" by auto
    moreover from processWord_frame [OF p] have "length (calls s) \<le> length (calls s1)" by auto
    ultimately show ?thesis using Cons.IH [OF q] a by auto
  qed
qed

text \<open>
  A word is generated afresh when it is neither recovered nor known locally; the loop
  over words that are all recovered or known leaves the store alone.
\<close>

lemma processWords_known:
  assumes "\<forall>w \<in> set rest. w \<in> already \<or> ex w \<noteq> None"
  shows "\<exists>s' more. processWords env tg nv ws already i rest ex cards s = (s', Inr (ex, cards @ more)) \<and>
           store s' = store s \<and> calls s' = calls s \<and>
           length more = length (filter (\<lambda>w. w \<notin> already) rest)"
  using assms
proof (induction rest arbitrary: i cards s)
  case Nil
  then show ?case by simp
next
  case (Cons w rest)
  from Cons.prems have k: "\<forall>w \<in> set rest. w \<in> already \<or> ex w \<noteq> None" by simp
  show ?case
  proof (cases "w \<in> already")
    case True
    from Cons.IH [OF k, of "Suc i" cards "onProgress (Skipped w (i + 1) (length ws)) s"]
    obtain s' more where
      "processWords env tg nv ws already (Suc i) rest ex cards (onProgress (Skipped w (i + 1) (length ws)) s) =
         (s', Inr (ex, cards @ more))"
      "store s' = store s" "calls s' = calls s"
      "length more = length (filter (\<lambda>w. w \<notin> already) rest)"
      by (auto simp: onProgress_def)
    with True show ?thesis by (simp add: processWord_skip)
  next
    case False
    with Cons.prems obtain cardData where c: "ex w = Some cardData" by auto
    let ?s1 = "s\<lparr>reported := reported s @ [FoundLocal w (i + 1) (length ws)], minted := Suc (minted s)\<rparr>"
    let ?c = "reusedCard (uuid env (minted s)) cardData"
    from Cons.IH [OF k, of "Suc i" "cards @ [?c]" ?s1]
    obtain s' more where
      "processWords env tg nv ws already (Suc i) rest ex (cards @ [?c]) ?s1 =
         (s', Inr (ex, (cards @ [?c]) @ more))"
      "store s' = store s" "calls s' = calls s"
      "length more = length (filter (\<lambda>w. w \<notin> already) rest)"
      by auto
    with False c show ?thesis
      by (intro exI [of _ s'] exI [of _ "?c # more"]) (simp add: processWord_reuse)
  qed
qed

lemma processWords_accumulator:
  assumes "processWords env tg nv ws already i rest ex cards s = (s', Inr (ex', cards'))"
  shows "\<exists>more. cards' = cards @ more \<and> length more = length (filter (\<lambda>w. w \<notin> already) rest)"
  using assms
proof (induction rest arbitrary: i ex cards s)
  case Nil
  then show ?case by simp
next
  case (Cons w rest)
  obtain s1 r1 where p: "processWord env tg nv ws already i w ex cards s = (s1, r1)"
    by (cases "processWord env tg nv ws already i w ex cards s")
  from Cons.prems p obtain ex1 cards1 where r1: "r1 = Inr (ex1, cards1)"
    and rest: "processWords env tg nv ws already (Suc i) rest ex1 cards1 s1 = (s', Inr (ex', cards'))"
    by (cases r1) auto
  from Cons.IH [OF rest] obtain more where m: "cards' = cards1 @ more"
    "length more = length (filter (\<lambda>w. w \<notin> already) rest)" by blast
  show ?case
  proof (cases rule: processWord_paths [where w = w and already = already and ex = ex and env = env and tg = tg and nv = nv])
    case skip
    with p r1 have "cards1 = cards" by (auto simp: processWord_skip)
    with m skip show ?thesis by simp
  next
    case (reuse cardData)
    with p r1 have "cards1 = cards @ [reusedCard (uuid env (minted s)) cardData]"
      by (auto simp: processWord_reuse)
    with m reuse show ?thesis by simp
  next
    case (fail e)
    with p r1 show ?thesis by (simp add: processWord_fail)
  next
    case (fresh cardData)
    with p r1 have "cards1 = cards @ [generatedCard env w tg cardData s]"
      by (auto simp: processWord_fresh)
    with m fresh show ?thesis by simp
  qed
qed

lemma processWords_lookup:
  assumes "processWords env tg nv ws already i rest ex cards s = (s', Inr (ex', cards'))"
    and "\<forall>w \<in> set rest. toLowerCase w = w" "k \<notin> set rest"
  shows "ex' k = ex k"
  using assms
proof (induction rest arbitrary: i ex cards s)
  case Nil
  then show ?case by simp
next
  case (Cons w rest)
  obtain s1 r1 where p: "processWord env tg nv ws already i w ex cards s = (s1, r1)"
    by (cases "processWord env tg nv ws already i w ex cards s")
  from Cons.prems(1) p obtain ex1 cards1 where r1: "r1 = Inr (ex1, cards1)"
    and rest: "processWords env tg nv ws already (Suc i) rest ex1 cards1 s1 = (s', Inr (ex', cards'))"
    by (cases r1) auto
  from Cons.prems have l: "\<forall>w \<in> set rest. toLowerCase w = w" and wl: "toLowerCase w = w"
    and kr: "k \<notin> set rest" and kw: "k \<noteq> w" by auto
  note ih = Cons.IH [OF rest l kr]
  show ?case
  proof (cases rule: processWord_paths [where w = w and already = already and ex = ex and env = env and tg = tg and nv = nv])
    case skip
    with p r1 have "ex1 = ex" by (auto simp: processWord_skip)
    with ih show ?thesis by simp
  next
    case (reuse cardData)
    with p r1 have "ex1 = ex" by (auto simp: processWord_reuse)
    with ih show ?thesis by simp
  next
    case (fail e)
    with p r1 show ?thesis by (simp add: processWord_fail)
  next
    case (fresh cardData)
    with p r1 have "ex1 = ex(w \<mapsto> omitId (generatedCard env w tg cardData s))"
      by (auto simp: processWord_fresh wl)
    with ih kw show ?thesis by simp
  qed
qed

lemma processWords_last_fresh:
  assumes run: "processWords env tg nv ws already i (p1 @ w # p2) ex cards s = (s', Inr (ex', cards'))"
    and d: "distinct (p1 @ w # p2)" and lw: "\<forall>v \<in> set (p1 @ w # p2). toLowerCase v = v"
    and w: "w \<notin> already" "ex w = None"
    and k: "\<forall>v \<in> set p2. v \<in> already \<or> ex v \<noteq> None"
  shows "\<exists>written more. cards' = written @ more \<and>
           store s' DRAFT_KEY = Some (checkpoint ws written) \<and>
           length written = length cards + length (filter (\<lambda>v. v \<notin> already) (p1 @ [w])) \<and>
           length more = length (filter (\<lambda>v. v \<notin> already) p2)"
proof -
  obtain sa ra where a: "processWords env tg nv ws already i p1 ex cards s = (sa, ra)"
    by (cases "processWords env tg nv ws already i p1 ex cards s")
  from run a obtain exa cardsa where ra: "ra = Inr (exa, cardsa)"
    by (cases ra) (auto simp: processWords_append)
  note a = a [unfolded ra]
  from d lw have "\<forall>v \<in> set p1. toLowerCase v = v" "w \<notin> set p1" by auto
  from processWords_lookup [OF a this] w have wa: "exa w = None" by simp
  from processWords_accumulator [OF a] obtain m1 where m1: "cardsa = cards @ m1"
    "length m1 = length (filter (\<lambda>v. v \<notin> already) p1)" by blast
  obtain sb rb where b: "processWord env tg nv ws already (i + length p1) w exa cardsa sa = (sb, rb)"
    by (cases "processWord env tg nv ws already (i + length p1) w exa cardsa sa")
  from run a b obtain exb cardsb where rb: "rb = Inr (exb, cardsb)"
    by (cases rb) (auto simp: processWords_append)
  have "\<exists>cardData. generateFlashcardDataForWord env w tg nv = Inr cardData"
  proof (cases "generateFlashcardDataForWord env w tg nv")
    case (Inl e)
    with b rb w wa show ?thesis by (simp add: processWord_fail)
  qed simp
  then obtain cardData where g: "generateFlashcardDataForWord env w tg nv = Inr cardData" ..
  let ?c = "generatedCard env w tg cardData sa"
  from b rb w(1) wa g have cb: "cardsb = cardsa @ [?c]"
    and eb: "exb = exa(toLowerCase w \<mapsto> omitId ?c)"
    and sb: "store sb DRAFT_KEY = Some (checkpoint ws (cardsa @ [?c]))"
    by (auto simp: processWord_fresh)
  have kb: "\<forall>v \<in> set p2. v \<in> already \<or> exb v \<noteq> None"
  proof
    fix v assume v: "v \<in> set p2"
    with d have "v \<notin> set p1" "v \<noteq> w" by auto
    moreover from lw have "\<forall>v \<in> set p1. toLowerCase v = v" "toLowerCase w = w" by auto
    ultimately have "exb v = ex v" using processWords_lookup [OF a, of v] eb by simp
    with k v show "v \<in> already \<or> exb v \<noteq> None" by auto
  qed
  from processWords_known [OF kb, of env tg nv ws "Suc (i + length p1)" cardsb sb]
  obtain s2 more where c: "processWords env tg nv ws already (Suc (i + length p1)) p2 exb cardsb sb =
      (s2, Inr (exb, cardsb @ more))" "store s2 = store sb"
    "length more = length (filter (\<lambda>v. v \<notin> already) p2)" by blast
  from run a b rb c(1) have "s' = s2" "cards' = cardsb @ more"
    by (simp_all add: processWords_append)
  with c sb cb m1 w(1) show ?thesis
    by (intro exI [of _ "cardsa @ [?c]"] exI [of _ more]) simp
qed

subsection \<open>Errors and the draft\<close>

lemma getprop_error: "getprop v k = Inl e \<Longrightarrow> e = TypeError"
  by (cases v) auto

lemma arrayElements_error: "arrayElements v = Inl e \<Longrightarrow> e = TypeError"
  by (cases v) auto

lemma wordKey_error: "wordKey c = Inl e \<Longrightarrow> e = TypeError"
  unfolding wordKey_def
  by (cases "getprop c ''word''") (auto dest: getprop_error split: json.splits)

lemma mapE_error: "mapE f xs = Inl e \<Longrightarrow> \<exists>x \<in> set xs. f x = Inl e"
  by (induction xs) (auto split: sum.splits)

lemma scanCards_error: "scanCards cs ex = Inl e \<Longrightarrow> e = TypeError"
proof (induction cs arbitrary: ex)
  case Nil
  then show ?case by simp
next
  case (Cons c cs)
  then show ?case
    by (cases "wordKey c") (auto dest: wordKey_error)
qed

lemma scanDecks_error: "scanDecks ds ex = Inl e \<Longrightarrow> e = TypeError"
proof (induction ds arbitrary: ex)
  case Nil
  then show ?case by simp
next
  case (Cons d ds)
  show ?case
  proof (cases "getprop d ''cards''")
    case (Inl e')
    with Cons.prems show ?thesis by (auto dest: getprop_error)
  next
    case (Inr v)
    note v = this
    show ?thesis
    proof (cases "arrayElements v")
      case (Inl e')
      with Cons.prems v show ?thesis by (auto dest: arrayElements_error)
    next
      case (Inr cs)
      note cs = this
      show ?thesis
      proof (cases "scanCards cs ex")
        case (Inl e')
        with Cons.prems v cs show ?thesis by (auto dest: scanCards_error)
      next
        case (Inr ex')
        with Cons.prems v cs show ?thesis by (auto dest: Cons.IH)
      qed
    qed
  qed
qed

lemma existingWordData_error: "existingWordData st = Inl e \<Longrightarrow> e = TypeError"
  unfolding existingWordData_def Let_def
  by (cases "scanDecks (getDecks st) Map.empty") (auto dest: scanDecks_error scanCards_error)

lemma stringsOf_Nil: "stringsOf vs = Some [] \<longleftrightarrow> vs = []"
proof (cases vs)
  case Nil
  then show ?thesis by simp
next
  case (Cons v vs')
  then show ?thesis by (cases v) (auto split: option.splits)
qed

lemma sort_Nil_iff: "sort ws = [] \<longleftrightarrow> ws = []"
proof
  assume "sort ws = []"
  then have "length (sort ws) = 0" by simp
  then show "ws = []" by simp
qed simp

lemma sameWords_Nil: "sameWords vs [] \<longleftrightarrow> vs = []"
  by (cases "stringsOf vs") (auto simp: sameWords_def stringsOf_Nil sort_Nil_iff)

lemma arrayElements_Inr: "arrayElements v = Inr xs \<longleftrightarrow> v = JArr xs"
  by (cases v) auto

lemma loadDraft_outcomes:
  obtains (untouched) "loadDraft ws s = (ws, JArr [], s)"
  | (removed) "loadDraft ws s = (ws, JArr [], removeItem DRAFT_KEY s)"
  | (ignored) draft iw where "store s DRAFT_KEY = Some (Text draft)"
      "getprop draft ''inputWords'' = Inr (JArr iw)" "\<not> sameWords iw (sort ws)"
      "loadDraft ws s = (sort ws, JArr [], s)"
  | (adopted) draft iw cards where "store s DRAFT_KEY = Some (Text draft)"
      "getprop draft ''inputWords'' = Inr (JArr iw)" "sameWords iw (sort ws)"
      "getprop draft ''generatedCards'' = Inr cards"
      "loadDraft ws s = (sort ws, cards, onProgress Resuming s)"
proof (cases "store s DRAFT_KEY")
  case None
  then show ?thesis using untouched by (simp add: loadDraft_def)
next
  case (Some item)
  show ?thesis
  proof (cases item)
    case EmptyText
    with Some show ?thesis using untouched by (simp add: loadDraft_def)
  next
    case Garbled
    with Some show ?thesis using removed by (simp add: loadDraft_def)
  next
    case (Text draft)
    note t = this
    show ?thesis
    proof (cases "getprop draft ''inputWords''")
      case (Inl e)
      with Some t show ?thesis using removed by (simp add: loadDraft_def)
    next
      case (Inr v)
      note v = this
      show ?thesis
      proof (cases "arrayElements v")
        case (Inl e)
        with Some t v show ?thesis using removed by (simp add: loadDraft_def)
      next
        case (Inr iw)
        then have viw: "v = JArr iw" by (simp add: arrayElements_Inr)
        show ?thesis
        proof (cases "sameWords iw (sort ws)")
          case False
          with Some t v viw show ?thesis using ignored [of draft iw] by (simp add: loadDraft_def)
        next
          case True
          have "draft \<noteq> JNull" "draft \<noteq> JUndefined" using v by auto
          then obtain cards where c: "getprop draft ''generatedCards'' = Inr cards"
            by (cases draft) auto
          with Some t v viw True show ?thesis
            using adopted [of draft iw cards] by (simp add: loadDraft_def)
        qed
      qed
    qed
  qed
qed

lemma loadDraft_frame:
  assumes "loadDraft ws s = (ws', g, s')"
  shows "calls s' = calls s \<and> minted s' = minted s \<and>
         (\<forall>k. k \<noteq> DRAFT_KEY \<longrightarrow> store s' k = store s k) \<and>
         (store s' DRAFT_KEY = None \<or> store s' DRAFT_KEY = store s DRAFT_KEY)"
  using assms
  by (cases rule: loadDraft_outcomes [of ws s]) (auto simp: removeItem_def onProgress_def)

lemma loadDraft_words:
  "loadDraft ws s = (ws', g, s') \<Longrightarrow> ws' = ws \<or> ws' = sort ws"
  by (cases rule: loadDraft_outcomes [of ws s]) auto

lemma loadDraft_empty:
  assumes "loadDraft [] s = (ws', g, s')"
  shows "ws' = []"
  using loadDraft_words [OF assms] by auto

lemma loadDraft_not_adopted:
  assumes l: "loadDraft [] s = (ws', g, s')" and n: "\<not> emptyDraft (store s)"
  shows "g = JArr []"
proof (cases rule: loadDraft_outcomes [of "[]" s])
  case (adopted draft iw cards)
  then have "iw = []" by (simp add: sameWords_Nil)
  with adopted have "emptyDraft (store s)" by (simp add: emptyDraft_def propOf_def)
  with n show ?thesis by simp
qed (use l in auto)

lemma DRAFT_KEY_other: "DRAFT_KEY \<noteq> DECKS_KEY" "DRAFT_KEY \<noteq> WORDS_KEY" "DRAFT_KEY \<noteq> STORIES_KEY"
  by (simp_all add: DRAFT_KEY_def DECKS_KEY_def WORDS_KEY_def STORIES_KEY_def)

lemma existingWordData_same:
  "(\<forall>k. k \<noteq> DRAFT_KEY \<longrightarrow> st' k = st k) \<Longrightarrow> existingWordData st' = existingWordData st"
proof -
  assume a: "\<forall>k. k \<noteq> DRAFT_KEY \<longrightarrow> st' k = st k"
  then have "getDecks st' = getDecks st" "getWords st' = getWords st"
    by (simp_all add: getDecks_def getWords_def DRAFT_KEY_other [symmetric])
  then show ?thesis by (simp add: existingWordData_def)
qed

subsection \<open>The requested words\<close>

lemma table_disjoint: "list_all (\<lambda>c. c \<notin> set upperCase) lowerCase"
  unfolding upperCase_def lowerCase_def by simp

lemma lowerChar_idem: "lowerChar (lowerChar c) = lowerChar c"
proof (cases "map_of (zip upperCase lowerCase) c")
  case None
  then show ?thesis by (simp add: lowerChar_def)
next
  case (Some l)
  then have "(c, l) \<in> set (zip upperCase lowerCase)" by (rule map_of_SomeD)
  then have "l \<in> set lowerCase" by (rule set_zip_rightD)
  with table_disjoint have "l \<notin> set upperCase" by (simp add: list_all_iff)
  then have "l \<notin> fst ` set (zip upperCase lowerCase)"
    by (auto dest: set_zip_leftD)
  then have "map_of (zip upperCase lowerCase) l = None" by (simp add: map_of_eq_None_iff)
  with Some show ?thesis by (simp add: lowerChar_def)
qed

lemma toLowerCase_idem: "toLowerCase (toLowerCase s) = toLowerCase s"
  by (simp add: toLowerCase_def lowerChar_idem)

lemma foldl_setAdd:
  "distinct seen \<Longrightarrow>
   distinct (foldl setAdd seen xs) \<and> set (foldl setAdd seen xs) = set seen \<union> set xs"
  by (induction xs arbitrary: seen) (auto simp: setAdd_def)

lemma distinct_newSet: "distinct (newSet xs)"
  using foldl_setAdd [of "[]" xs] by (simp add: newSet_def)

lemma set_newSet: "set (newSet xs) = set xs"
  using foldl_setAdd [of "[]" xs] by (simp add: newSet_def)

lemma distinct_uniqueInputWords: "distinct (uniqueInputWords words)"
  by (simp add: uniqueInputWords_def distinct_newSet)

lemma lower_uniqueInputWords: "w \<in> set (uniqueInputWords words) \<Longrightarrow> toLowerCase w = w"
  by (auto simp: uniqueInputWords_def set_newSet toLowerCase_idem)

lemma stringsOf_strings: "stringsOf (map JStr iw) = Some iw"
  by (induction iw) auto

lemma sort_eq_iff_set:
  fixes xs ys :: "string list"
  assumes "distinct xs" "distinct ys"
  shows "sort xs = sort ys \<longleftrightarrow> set xs = set ys"
proof
  assume "sort xs = sort ys"
  then have "set (sort xs) = set (sort ys)" by simp
  then show "set xs = set ys" by simp
next
  assume "set xs = set ys"
  then show "sort xs = sort ys"
    using assms by (intro sorted_distinct_set_unique) simp_all
qed

lemma sameWords_strings:
  "distinct iw \<Longrightarrow> distinct ws \<Longrightarrow> sameWords (map JStr iw) (sort ws) \<longleftrightarrow> set iw = set ws"
  by (simp add: sameWords_def stringsOf_strings sort_eq_iff_set)

lemma loadDraft_adopts:
  assumes "store s DRAFT_KEY = Some (Text (JObj kvs))"
    and "lookupProp kvs ''inputWords'' = JArr (map JStr iw)"
    and "distinct iw" "distinct ws" "set iw = set ws"
  shows "loadDraft ws s = (sort ws, lookupProp kvs ''generatedCards'', onProgress Resuming s)"
  using assms by (simp add: loadDraft_def sameWords_strings)

lemma loadDraft_ignores:
  assumes "store s DRAFT_KEY = Some (Text (JObj kvs))"
    and "lookupProp kvs ''inputWords'' = JArr (map JStr iw)"
    and "distinct iw" "distinct ws" "set iw \<noteq> set ws"
  shows "loadDraft ws s = (sort ws, JArr [], s)"
  using assms by (simp add: loadDraft_def sameWords_strings)

subsection \<open>The whole function\<close>

lemma processAndGenerateWords_unfold:
  assumes "loadDraft (uniqueInputWords words) s0 = (ws, JArr recovered, s1)"
    and "mapE wordKey recovered = Inr done"
    and "existingWordData (store s1) = Inr ex"
  shows "processAndGenerateWords env words tg nv s0 =
           (case processWords env tg nv ws (set done) 0 ws ex recovered (onProgress LoadingLocal s1) of
              (s3, Inl e) \<Rightarrow> (s3, Inl e)
            | (s3, Inr (ex', cards)) \<Rightarrow> (removeItem DRAFT_KEY s3, Inr cards))"
  using assms by (simp add: processAndGenerateWords_def onProgress_def)

lemma processAndGenerateWords_success:
  "processAndGenerateWords env words tg nv s0 = (s', Inr cards) \<Longrightarrow> store s' DRAFT_KEY = None"
  by (auto simp: processAndGenerateWords_def removeItem_def Let_def
      split: prod.splits sum.splits)

lemma processWords_calls:
  assumes "processWords env tg nv ws already i rest ex cards s = (s', Inr (ex', cards'))"
    and "distinct rest" "\<forall>w \<in> set rest. toLowerCase w = w"
  shows "calls s' = calls s @ requests tg nv (filter (\<lambda>w. w \<notin> already \<and> ex w = None) rest)"
  using assms
proof (induction rest arbitrary: i ex cards s)
  case Nil
  then show ?case by (simp add: requests_def)
next
  case (Cons w rest)
  obtain s1 r1 where p: "processWord env tg nv ws already i w ex cards s = (s1, r1)"
    by (cases "processWord env tg nv ws already i w ex cards s")
  from Cons.prems(1) p obtain ex1 cards1 where r1: "r1 = Inr (ex1, cards1)"
    and rest: "processWords env tg nv ws already (Suc i) rest ex1 cards1 s1 = (s', Inr (ex', cards'))"
    by (cases r1) auto
  from Cons.prems have d: "distinct rest" and l: "\<forall>w \<in> set rest. toLowerCase w = w"
    and wn: "w \<notin> set rest" and wl: "toLowerCase w = w" by simp_all
  note ih = Cons.IH [OF rest d l]
  show ?case
  proof (cases rule: processWord_paths [where w = w and already = already and ex = ex and env = env and tg = tg and nv = nv])
    case skip
    with p r1 have "calls s1 = calls s" "ex1 = ex" by (auto simp: processWord_skip onProgress_def)
    with ih skip show ?thesis by simp
  next
    case (reuse cardData)
    with p r1 have "calls s1 = calls s" "ex1 = ex" by (auto simp: processWord_reuse)
    with ih reuse show ?thesis by simp
  next
    case (fail e)
    with p r1 show ?thesis by (simp add: processWord_fail)
  next
    case (fresh cardData)
    with p r1 have c: "calls s1 = calls s @ [FlashcardCall w tg nv, SpeechCall w tg]"
      and e: "ex1 = ex(w \<mapsto> omitId (generatedCard env w tg cardData s))"
      by (auto simp: processWord_fresh wl)
    have "filter (\<lambda>x. x \<notin> already \<and> ex1 x = None) rest = filter (\<lambda>x. x \<notin> already \<and> ex x = None) rest"
      by (rule filter_cong) (use wn e in auto)
    with ih c fresh show ?thesis by (simp add: requests_def)
  qed
qed

lemma run_calls:
  assumes l: "loadDraft (uniqueInputWords words) s0 = (sort (uniqueInputWords words), JArr recovered, s1)"
    and s1: "calls s1 = calls s0" "store s1 = store s0"
    and dn: "mapE wordKey recovered = Inr done"
    and run: "processAndGenerateWords env words tg nv s0 = (s', r)"
  shows "(\<exists>new. calls s' = calls s0 @ new \<and> (\<forall>c \<in> set new. callWord c \<notin> set done)) \<and>
         (\<forall>ex cards. existingWordData (store s0) = Inr ex \<and> r = Inr cards \<longrightarrow>
            (\<exists>more. cards = recovered @ more) \<and>
            calls s' = calls s0 @ requests tg nv
              (filter (\<lambda>w. w \<notin> set done \<and> ex w = None) (sort (uniqueInputWords words))))"
proof (cases "existingWordData (store s0)")
  case (Inl e)
  with run l dn s1 have "s' = onProgress LoadingLocal s1" "r = Inl e"
    by (simp_all add: processAndGenerateWords_def onProgress_def)
  with s1 Inl show ?thesis by (simp add: onProgress_def)
next
  case (Inr ex)
  let ?ws = "sort (uniqueInputWords words)"
  let ?s2 = "onProgress LoadingLocal s1"
  have ex: "existingWordData (store s1) = Inr ex" using Inr s1 by simp
  obtain s3 r3 where p: "processWords env tg nv ?ws (set done) 0 ?ws ex recovered ?s2 = (s3, r3)"
    by (cases "processWords env tg nv ?ws (set done) 0 ?ws ex recovered ?s2")
  note u = processAndGenerateWords_unfold [OF l dn ex, of env tg nv, unfolded p]
  from processWords_frame [OF p] obtain new where new: "calls s3 = calls ?s2 @ new"
    "\<forall>c \<in> set new. callWord c \<notin> set done" by blast
  have c2: "calls ?s2 = calls s0" using s1 by (simp add: onProgress_def)
  show ?thesis
  proof (cases r3)
    case (Inl e)
    with u run have "s' = s3" "r = Inl e" by simp_all
    with new c2 show ?thesis by auto
  next
    case (Inr v)
    obtain ex3 cards3 where v: "v = (ex3, cards3)" by (cases v)
    from u run Inr v have s': "s' = removeItem DRAFT_KEY s3" and r: "r = Inr cards3" by simp_all
    have d: "distinct ?ws" by (simp add: distinct_uniqueInputWords)
    have lw: "\<forall>w \<in> set ?ws. toLowerCase w = w" by (simp add: lower_uniqueInputWords)
    from processWords_calls [OF p [unfolded Inr v] d lw]
    have c3: "calls s3 = calls s0 @ requests tg nv (filter (\<lambda>w. w \<notin> set done \<and> ex w = None) ?ws)"
      by (simp add: c2)
    from processWords_draft [OF p [unfolded Inr v]] obtain more where m: "cards3 = recovered @ more"
      by blast
    have c': "calls s' = calls s3" by (simp add: s' removeItem_def)
    have 1: "\<exists>new. calls s' = calls s0 @ new \<and> (\<forall>c \<in> set new. callWord c \<notin> set done)"
      using new c2 c' by auto
    have 2: "\<forall>ex' cards. existingWordData (store s0) = Inr ex' \<and> r = Inr cards \<longrightarrow>
            (\<exists>more. cards = recovered @ more) \<and>
            calls s' = calls s0 @ requests tg nv
              (filter (\<lambda>w. w \<notin> set done \<and> ex' w = None) ?ws)"
      using \<open>existingWordData (store s0) = Inr ex\<close> r m c3 c' by auto
    from 1 2 show ?thesis by simp
  qed
qed

lemma run_slot:
  assumes l: "loadDraft (uniqueInputWords words) s0 = (ws, JArr recovered, s1)"
    and s1: "calls s1 = calls s0" "store s1 = store s0"
    and run: "processAndGenerateWords env words tg nv s0 = (s', r)"
  shows "(\<forall>cards. r = Inr cards \<longrightarrow> store s' DRAFT_KEY = None) \<and>
         (\<forall>e. r = Inl e \<longrightarrow>
            store s' DRAFT_KEY = store s0 DRAFT_KEY \<or>
            (\<exists>cards. store s' DRAFT_KEY = Some (checkpoint ws cards))) \<and>
         (\<forall>e. r = Inl e \<and> length (calls s') \<le> length (calls s0) + 1 \<longrightarrow> store s' = store s0)"
proof -
  have ok: "\<forall>cards. r = Inr cards \<longrightarrow> store s' DRAFT_KEY = None"
    using processAndGenerateWords_success [of env words tg nv s0 s'] run by simp
  have rest: "(\<forall>e. r = Inl e \<longrightarrow>
            store s' DRAFT_KEY = store s0 DRAFT_KEY \<or>
            (\<exists>cards. store s' DRAFT_KEY = Some (checkpoint ws cards))) \<and>
         (\<forall>e. r = Inl e \<and> length (calls s') \<le> length (calls s0) + 1 \<longrightarrow> store s' = store s0)"
  proof (cases "mapE wordKey recovered")
    case (Inl e)
    with run l have "s' = s1" by (simp add: processAndGenerateWords_def)
    with s1 show ?thesis by simp
  next
    case (Inr dn)
    note dn = this
    show ?thesis
    proof (cases "existingWordData (store s1)")
      case (Inl e)
      with run l dn have "s' = onProgress LoadingLocal s1"
        by (simp add: processAndGenerateWords_def onProgress_def)
      with s1 show ?thesis by (simp add: onProgress_def)
    next
      case (Inr ex)
      let ?s2 = "onProgress LoadingLocal s1"
      obtain s3 r3 where p: "processWords env tg nv ws (set dn) 0 ws ex recovered ?s2 = (s3, r3)"
        by (cases "processWords env tg nv ws (set dn) 0 ws ex recovered ?s2")
      note u = processAndGenerateWords_unfold [OF l dn Inr, of env tg nv, unfolded p]
      have s2: "store ?s2 = store s0" "calls ?s2 = calls s0" using s1 by (simp_all add: onProgress_def)
      show ?thesis
      proof (cases r3)
        case (Inl e)
        with u run have e: "s' = s3" by simp
        from processWords_draft [OF p]
        have a: "store s3 DRAFT_KEY = store s0 DRAFT_KEY \<or>
                 (\<exists>cards. store s3 DRAFT_KEY = Some (checkpoint ws cards))"
          unfolding s2 by blast
        from processWords_store_calls [OF p]
        have b: "store s3 = store s0 \<or> length (calls s0) + 2 \<le> length (calls s3)"
          unfolding s2 .
        from a b show ?thesis unfolding e by auto
      next
        case (Inr v)
        obtain ex3 cards3 where v: "v = (ex3, cards3)" by (cases v)
        from u run Inr v have "r = Inr cards3" by simp
        then show ?thesis by simp
      qed
    qed
  qed
  from ok rest show ?thesis by simp
qed

subsection \<open>The lookup\<close>

lemma scanCards_append:
  "scanCards (xs @ ys) ex =
     (case scanCards xs ex of Inl e \<Rightarrow> Inl e | Inr ex1 \<Rightarrow> scanCards ys ex1)"
proof (induction xs arbitrary: ex)
  case Nil
  then show ?case by simp
next
  case (Cons c xs)
  then show ?case by (cases "wordKey c") auto
qed

lemma scanCards_lookup:
  "scanCards cs ex = Inr ex' \<Longrightarrow>
   ex' k = (case ex k of Some d \<Rightarrow> Some d | None \<Rightarrow> map_option omitId (firstWith k cs))"
proof (induction cs arbitrary: ex)
  case Nil
  then show ?case by (simp add: firstWith_def split: option.splits)
next
  case (Cons c cs)
  from Cons.prems obtain k0 where k0: "wordKey c = Inr k0"
    by (cases "wordKey c") auto
  let ?ex1 = "if ex k0 = None then ex(k0 \<mapsto> omitId c) else ex"
  from Cons.prems k0 have "scanCards cs ?ex1 = Inr ex'" by simp
  from Cons.IH [OF this]
  have ih: "ex' k = (case ?ex1 k of Some d \<Rightarrow> Some d | None \<Rightarrow> map_option omitId (firstWith k cs))" .
  show ?case
  proof (cases "k = k0")
    case True
    with ih k0 show ?thesis by (auto simp: firstWith_def split: option.splits)
  next
    case False
    with ih k0 show ?thesis by (auto simp: firstWith_def split: option.splits)
  qed
qed

lemma scanDecks_scanCards:
  "scanDecks ds ex = Inr ex' \<Longrightarrow> scanCards (embeddedCards ds) ex = Inr ex'"
proof (induction ds arbitrary: ex)
  case Nil
  then show ?case by (simp add: embeddedCards_def)
next
  case (Cons d ds)
  from Cons.prems obtain v where v: "getprop d ''cards'' = Inr v"
    by (cases "getprop d ''cards''") auto
  from Cons.prems v obtain cs where cs: "arrayElements v = Inr cs"
    by (cases "arrayElements v") auto
  from Cons.prems v cs obtain ex1 where ex1: "scanCards cs ex = Inr ex1"
    by (cases "scanCards cs ex") auto
  from Cons.prems v cs ex1 have "scanDecks ds ex1 = Inr ex'" by simp
  from Cons.IH [OF this] have ih: "scanCards (embeddedCards ds) ex1 = Inr ex'" .
  have "arrayProp d ''cards'' = cs"
    using v cs by (simp add: arrayProp_def propOf_def arrayElements_Inr)
  then have "embeddedCards (d # ds) = cs @ embeddedCards ds"
    by (simp add: embeddedCards_def)
  then show ?case by (simp add: scanCards_append ex1 ih)
qed

subsection \<open>The example runs\<close>

lemma library_decks:
  "getDecks libraryStore =
     [JObj [(''id'', JStr ''d1''), (''title'', JStr ''Fruit''),
            (''cards'', JArr [JObj ((''id'', JStr ''c1'') # appleFromDeck)]),
            (''targetLanguage'', JStr ''en''), (''nativeLanguage'', JStr ''zh'')]]"
  by (simp add: libraryStore_def store_defs migrate_defs deckApple_def appleFromDeck_def defaultWrites_def)

lemma library_words:
  "getWords libraryStore = [JObj ((''id'', JStr ''w1'') # appleFromWords)]"
  by (simp add: libraryStore_def store_defs migrate_defs wordApple_def appleFromWords_def defaultWrites_def)

lemma library_lookup:
  "existingWordData libraryStore = Inr [''apple'' \<mapsto> JObj appleFromDeck]"
  by (simp add: existingWordData_def library_decks library_words wordKey_def omitId_def
      toLowerCase_def lowerChar_def upperCase_def lowerCase_def appleFromDeck_def appleFromWords_def defaultWrites_def)

lemma library_no_draft: "libraryStore DRAFT_KEY = None"
  by (simp add: libraryStore_def DRAFT_KEY_other)

lemma unique_apple: "uniqueInputWords [''apple''] = [''apple'']"
  by (simp add: uniqueInputWords_def newSet_def setAdd_def toLowerCase_def lowerChar_def upperCase_def lowerCase_def trim_def isSpace_def)

lemma unique_apple_bad: "uniqueInputWords [''apple'', ''bad''] = [''apple'', ''bad'']"
  by (simp add: uniqueInputWords_def newSet_def setAdd_def toLowerCase_def lowerChar_def upperCase_def lowerCase_def trim_def isSpace_def)

lemma unique_pear_bad_kiwi:
  "uniqueInputWords [''pear'', ''bad'', ''kiwi''] = [''pear'', ''bad'', ''kiwi'']"
  by (simp add: uniqueInputWords_def newSet_def setAdd_def toLowerCase_def lowerChar_def upperCase_def lowerCase_def trim_def isSpace_def)

lemma unique_blank: "uniqueInputWords [''  '', ''''] = []"
  by (simp add: uniqueInputWords_def newSet_def toLowerCase_def trim_def isSpace_def)

lemma unique_none: "uniqueInputWords [] = []"
  by (simp add: uniqueInputWords_def newSet_def)

lemma unique_plum_pear_kiwi:
  "uniqueInputWords [''plum'', ''pear'', ''kiwi''] = [''plum'', ''pear'', ''kiwi'']"
  by (simp add: uniqueInputWords_def newSet_def setAdd_def toLowerCase_def lowerChar_def upperCase_def lowerCase_def trim_def isSpace_def)

lemma sort_plum_pear_kiwi: "sort [''plum'', ''pear'', ''kiwi''] = [''kiwi'', ''pear'', ''plum'']"
  by simp

lemma sort_pear_kiwi_plum: "sort [''pear'', ''kiwi'', ''plum''] = [''kiwi'', ''pear'', ''plum'']"
  by simp

lemma empty_lookup: "existingWordData Map.empty = Inr Map.empty"
  by (simp add: existingWordData_def getDecks_def getWords_def readCollection_def parseOrEmpty_def mapArray_def)

lemma demo_pear: "generateFlashcardDataForWord demoEnv ''pear'' ''en'' ''zh'' = Inr pearData"
  by (simp add: generateFlashcardDataForWord_def demoEnv_def pearData_def)

lemma demo_bad: "generateFlashcardDataForWord demoEnv ''bad'' ''en'' ''zh'' = Inl (GenerationFailed ''bad'')"
  by (simp add: generateFlashcardDataForWord_def demoEnv_def)

lemma pear_generated: "minted s = 0 \<Longrightarrow> generatedCard demoEnv ''pear'' ''en'' pearData s = pearCard"
  by (simp add: generatedCard_def newCard_def generateSpeech_def demoEnv_def
      pearData_def pearCard_def digit_char_def)

lemma pear_loop:
  "processWords demoEnv ''en'' ''zh'' [''pear'', ''bad'', ''kiwi''] {} 0 [''pear''] Map.empty []
     (onProgress LoadingLocal (start Map.empty)) =
   (afterPear, Inr ([''pear'' \<mapsto> omitId pearCard], [pearCard]))"
  by (simp add: processWord_fresh demo_pear pear_generated afterPear_def onProgress_def start_def
      toLowerCase_def lowerChar_def upperCase_def lowerCase_def)

lemma demo_generated:
  "w \<noteq> ''bad'' \<Longrightarrow>
   generateFlashcardDataForWord demoEnv w ''en'' ''zh'' =
     Inr (JObj [(''word'', JStr w), (''targetLanguage'', JStr ''en''), (''nativeLanguage'', JStr ''zh'')])"
  by (simp add: generateFlashcardDataForWord_def demoEnv_def)

lemma demo_card:
  "generatedCard demoEnv w ''en''
     (JObj [(''word'', JStr w), (''targetLanguage'', JStr ''en''), (''nativeLanguage'', JStr ''zh'')]) s =
   fruitCard (''id-'' @ show_nat (minted s)) w"
  by (simp add: generatedCard_def newCard_def generateSpeech_def demoEnv_def fruitCard_def
      del: show_nat.simps)

lemma resume_lookup: "existingWordData (store resumeState) = Inr Map.empty"
  by (simp add: existingWordData_def getDecks_def getWords_def readCollection_def parseOrEmpty_def
      mapArray_def resumeState_def DRAFT_KEY_other [symmetric])

lemma resume_load:
  "loadDraft [''plum'', ''pear'', ''kiwi''] resumeState =
     ([''kiwi'', ''pear'', ''plum''], JArr [pearStored], onProgress Resuming resumeState)"
  by (simp add: loadDraft_def resumeState_def resumeDraft_def sameWords_def sort_plum_pear_kiwi
      sort_pear_kiwi_plum onProgress_def)

lemma resume_done: "mapE wordKey [pearStored] = Inr [''pear'']"
  by (simp add: wordKey_def pearStored_def toLowerCase_def lowerChar_def upperCase_def lowerCase_def)

lemma resume_run:
  "processAndGenerateWords demoEnv [''plum'', ''pear'', ''kiwi''] ''en'' ''zh'' resumeState =
     (\<lparr>store = Map.empty,
        reported = [Resuming, LoadingLocal,
                    GeneratingData ''kiwi'' 1 3, GeneratingSpeech ''kiwi'' 1 3,
                    Skipped ''pear'' 2 3,
                    GeneratingData ''plum'' 3 3, GeneratingSpeech ''plum'' 3 3],
        calls = [FlashcardCall ''kiwi'' ''en'' ''zh'', SpeechCall ''kiwi'' ''en'',
                 FlashcardCall ''plum'' ''en'' ''zh'', SpeechCall ''plum'' ''en''],
        minted = 3\<rparr>,
      Inr [pearStored, fruitCard ''id-1'' ''kiwi'', fruitCard ''id-2'' ''plum''])"
proof -
  have k: "processWord demoEnv ''en'' ''zh'' ws {''pear''} i ''kiwi'' Map.empty cs s =
      (s\<lparr>reported := reported s @ [GeneratingData ''kiwi'' (i + 1) (length ws), GeneratingSpeech ''kiwi'' (i + 1) (length ws)],
        calls := calls s @ [FlashcardCall ''kiwi'' ''en'' ''zh'', SpeechCall ''kiwi'' ''en''],
        minted := Suc (minted s),
        store := (store s)(DRAFT_KEY \<mapsto> checkpoint ws (cs @ [fruitCard (''id-'' @ show_nat (minted s)) ''kiwi'']))\<rparr>,
      Inr ([''kiwi'' \<mapsto> omitId (fruitCard (''id-'' @ show_nat (minted s)) ''kiwi'')],
           cs @ [fruitCard (''id-'' @ show_nat (minted s)) ''kiwi'']))" for ws i cs s
    using processWord_fresh [of "''kiwi''" "{''pear''}" Map.empty demoEnv "''en''" "''zh''" _ ws i cs s]
    by (simp add: demo_generated demo_card toLowerCase_def lowerChar_def upperCase_def lowerCase_def del: show_nat.simps)
  have p: "ex ''plum'' = None \<Longrightarrow> processWord demoEnv ''en'' ''zh'' ws {''pear''} i ''plum'' ex cs s =
      (s\<lparr>reported := reported s @ [GeneratingData ''plum'' (i + 1) (length ws), GeneratingSpeech ''plum'' (i + 1) (length ws)],
        calls := calls s @ [FlashcardCall ''plum'' ''en'' ''zh'', SpeechCall ''plum'' ''en''],
        minted := Suc (minted s),
        store := (store s)(DRAFT_KEY \<mapsto> checkpoint ws (cs @ [fruitCard (''id-'' @ show_nat (minted s)) ''plum'']))\<rparr>,
      Inr (ex(''plum'' \<mapsto> omitId (fruitCard (''id-'' @ show_nat (minted s)) ''plum'')),
           cs @ [fruitCard (''id-'' @ show_nat (minted s)) ''plum'']))" for ws i cs s ex
    using processWord_fresh [of "''plum''" "{''pear''}" ex demoEnv "''en''" "''zh''" _ ws i cs s]
    by (simp add: demo_generated demo_card toLowerCase_def lowerChar_def upperCase_def lowerCase_def del: show_nat.simps)
  have n: "show_nat (Suc 0) = ''1''" "show_nat (Suc (Suc 0)) = ''2''"
    by (simp_all add: digit_char_def)
  have l: "loadDraft (uniqueInputWords [''plum'', ''pear'', ''kiwi'']) resumeState =
     ([''kiwi'', ''pear'', ''plum''], JArr [pearStored], onProgress Resuming resumeState)"
    by (simp add: unique_plum_pear_kiwi resume_load)
  have ex: "existingWordData (store (onProgress Resuming resumeState)) = Inr Map.empty"
    by (simp add: onProgress_def resume_lookup)
  have loop: "processWords demoEnv ''en'' ''zh'' [''kiwi'', ''pear'', ''plum''] (set [''pear'']) 0
                [''kiwi'', ''pear'', ''plum''] Map.empty [pearStored]
                (onProgress LoadingLocal (onProgress Resuming resumeState)) =
     (\<lparr>store = [DRAFT_KEY \<mapsto> checkpoint [''kiwi'', ''pear'', ''plum'']
                   [pearStored, fruitCard ''id-1'' ''kiwi'', fruitCard ''id-2'' ''plum'']],
        reported = [Resuming, LoadingLocal,
                    GeneratingData ''kiwi'' 1 3, GeneratingSpeech ''kiwi'' 1 3,
                    Skipped ''pear'' 2 3,
                    GeneratingData ''plum'' 3 3, GeneratingSpeech ''plum'' 3 3],
        calls = [FlashcardCall ''kiwi'' ''en'' ''zh'', SpeechCall ''kiwi'' ''en'',
                 FlashcardCall ''plum'' ''en'' ''zh'', SpeechCall ''plum'' ''en''],
        minted = 3\<rparr>,
      Inr ([''kiwi'' \<mapsto> omitId (fruitCard ''id-1'' ''kiwi''),
            ''plum'' \<mapsto> omitId (fruitCard ''id-2'' ''plum'')],
           [pearStored, fruitCard ''id-1'' ''kiwi'', fruitCard ''id-2'' ''plum'']))"
    by (simp add: onProgress_def k p processWord_skip resumeState_def n numeral_2_eq_2
        numeral_3_eq_3 del: show_nat.simps)
  show ?thesis
    unfolding processAndGenerateWords_unfold [OF l resume_done ex] loop
    by (simp add: removeItem_def)
qed

lemma unique_pear_apple: "uniqueInputWords [''pear'', ''apple''] = [''pear'', ''apple'']"
  by (simp add: uniqueInputWords_def newSet_def setAdd_def toLowerCase_def lowerChar_def
      upperCase_def lowerCase_def trim_def isSpace_def)

lemma pear_apple_loop:
  "processWords demoEnv ''en'' ''zh'' [''pear'', ''apple''] {} 0 [''pear'', ''apple'']
     [''apple'' \<mapsto> JObj appleFromDeck] [] (onProgress LoadingLocal (start libraryStore)) =
   (afterApple,
    Inr ([''apple'' \<mapsto> JObj appleFromDeck, ''pear'' \<mapsto> omitId pearCard],
         [pearCard, JObj ((''id'', JStr ''id-1'') # appleFromDeck)]))"
proof -
  have r: "reusedCard ''id-1'' (JObj appleFromDeck) = JObj ((''id'', JStr ''id-1'') # appleFromDeck)"
    by (simp add: reusedCard_def appleFromDeck_def defaultWrites_def)
  have u: "uuid demoEnv (Suc 0) = ''id-1''" by (simp add: demoEnv_def digit_char_def)
  show ?thesis
    by (simp add: processWord_fresh processWord_reuse demo_pear pear_generated afterApple_def
        onProgress_def start_def toLowerCase_def lowerChar_def upperCase_def lowerCase_def r u)
qed

lemma unique_bad_fig: "uniqueInputWords [''bad'', ''fig''] = [''bad'', ''fig'']"
  by (simp add: uniqueInputWords_def newSet_def setAdd_def toLowerCase_def lowerChar_def
      upperCase_def lowerCase_def trim_def isSpace_def)

lemma stale_run:
  "processAndGenerateWords demoEnv [''bad'', ''fig''] ''en'' ''zh'' resumeState =
     (\<lparr>store = [DRAFT_KEY \<mapsto> Text (JObj resumeDraft)],
        reported = [LoadingLocal, GeneratingData ''bad'' 1 2],
        calls = [FlashcardCall ''bad'' ''en'' ''zh''], minted = 1\<rparr>,
      Inl (GenerationFailed ''bad''))"
proof -
  have s: "sort [''bad'', ''fig''] = [''bad'', ''fig'']" by simp
  have n: "\<not> sameWords (map JStr [''pear'', ''kiwi'', ''plum'']) [''bad'', ''fig'']"
    by (simp add: sameWords_def sort_pear_kiwi_plum)
  have l: "loadDraft (uniqueInputWords [''bad'', ''fig'']) resumeState =
             ([''bad'', ''fig''], JArr [], resumeState)"
    using n by (simp add: unique_bad_fig loadDraft_def resumeState_def resumeDraft_def s)
  have m: "mapE wordKey [] = Inr []" by simp
  show ?thesis
    unfolding processAndGenerateWords_unfold [OF l m resume_lookup]
    by (simp add: processWord_fail demo_bad onProgress_def resumeState_def)
qed

lemma umlaut_lookup:
  "existingWordData umlautStore =
     Inr [CHR 0xFC # ''bung'' \<mapsto>
            JObj ([(''word'', JStr (CHR 0xDC # ''bung'')), (''source'', JStr ''deck'')] @ defaultWrites)]"
  by (simp add: existingWordData_def umlautStore_def store_defs migrate_defs wordKey_def omitId_def
      toLowerCase_def lowerChar_def upperCase_def lowerCase_def defaultWrites_def)

section \<open>Precedence of the lookup\<close>

text \<open>
  Claim C1, as amended. The lookup of known words holds, for a word, the first card
  embedded in a deck that has the word, and a card of the Words collection only when
  no deck embeds the word; the card of a word found locally is built from that entry.
  So for a word that is both embedded in a deck and in the Words collection, the
  generator reuses the deck's version.
\<close>

theorem deck_embedded_cards_take_precedence:
  assumes "existingWordData st = Inr ex"
  shows "ex k = (case firstWith k (embeddedCards (getDecks st)) of
                   Some c \<Rightarrow> Some (omitId c)
                 | None \<Rightarrow> map_option omitId (firstWith k (getWords st))) \<and>
         (\<forall>c. w \<notin> already \<and> firstWith w (embeddedCards (getDecks st)) = Some c \<longrightarrow>
            (\<exists>s'. processWord env tg nv ws already i w ex cards s =
                    (s', Inr (ex, cards @ [reusedCard (uuid env (minted s)) (omitId c)]))))"
proof -
  from assms obtain ex1 where d: "scanDecks (getDecks st) Map.empty = Inr ex1"
    and w: "scanCards (getWords st) ex1 = Inr ex"
    by (cases "scanDecks (getDecks st) Map.empty") (auto simp: existingWordData_def Let_def)
  have 1: "ex1 k = map_option omitId (firstWith k (embeddedCards (getDecks st)))" for k
    using scanCards_lookup [OF scanDecks_scanCards [OF d], of k] by simp
  have 2: "ex k = (case firstWith k (embeddedCards (getDecks st)) of
                   Some c \<Rightarrow> Some (omitId c)
                 | None \<Rightarrow> map_option omitId (firstWith k (getWords st)))" for k
    using scanCards_lookup [OF w, of k] 1 [of k] by (auto split: option.splits)
  have 3: "\<forall>c. w \<notin> already \<and> firstWith w (embeddedCards (getDecks st)) = Some c \<longrightarrow>
            (\<exists>s'. processWord env tg nv ws already i w ex cards s =
                    (s', Inr (ex, cards @ [reusedCard (uuid env (minted s)) (omitId c)])))"
  proof (intro allI impI)
    fix c assume a: "w \<notin> already \<and> firstWith w (embeddedCards (getDecks st)) = Some c"
    then have "ex w = Some (omitId c)" using 2 [of w] by simp
    with a show "\<exists>s'. processWord env tg nv ws already i w ex cards s =
                    (s', Inr (ex, cards @ [reusedCard (uuid env (minted s)) (omitId c)]))"
      by (simp add: processWord_reuse)
  qed
  from 2 3 show ?thesis by simp
qed

text \<open>
  In the store above the lookup of \<^verbatim>\<open>apple\<close> is the card embedded in the deck,
  whose word is written \<^verbatim>\<open>Apple\<close>. Likewise for a word whose capital letter is
  outside ASCII: the deck's card is found under the lowered word.
\<close>

theorem deck_embedded_witness:
  "existingWordData libraryStore = Inr [''apple'' \<mapsto> JObj appleFromDeck] \<and>
   firstWith ''apple'' (embeddedCards (getDecks libraryStore)) =
     Some (JObj ((''id'', JStr ''c1'') # appleFromDeck)) \<and>
   firstWith ''apple'' (getWords libraryStore) = Some (JObj ((''id'', JStr ''w1'') # appleFromWords)) \<and>
   [''apple'' \<mapsto> JObj appleFromDeck] ''apple'' =
     Some (omitId (JObj ((''id'', JStr ''c1'') # appleFromDeck))) \<and>
   existingWordData umlautStore =
     Inr [CHR 0xFC # ''bung'' \<mapsto>
            JObj ([(''word'', JStr (CHR 0xDC # ''bung'')), (''source'', JStr ''deck'')] @ defaultWrites)]"
proof -
  have f: "firstWith ''apple'' (embeddedCards (getDecks libraryStore)) =
     Some (JObj ((''id'', JStr ''c1'') # appleFromDeck))"
    by (simp add: firstWith_def embeddedCards_def library_decks arrayProp_def propOf_def
        wordKey_def appleFromDeck_def toLowerCase_def lowerChar_def upperCase_def lowerCase_def)
  have g: "firstWith ''apple'' (getWords libraryStore) = Some (JObj ((''id'', JStr ''w1'') # appleFromWords))"
    by (simp add: firstWith_def library_words wordKey_def appleFromWords_def toLowerCase_def lowerChar_def upperCase_def lowerCase_def)
  from deck_embedded_cards_take_precedence [OF library_lookup, of "''apple''"] f
  have "[''apple'' \<mapsto> JObj appleFromDeck] ''apple'' =
     Some (omitId (JObj ((''id'', JStr ''c1'') # appleFromDeck)))"
    by simp
  with library_lookup f g umlaut_lookup show ?thesis by simp
qed

text \<open>
  The claim as stated fails there: the word is in both collections with different
  content, and the run returns the content of the deck's card, not of the Words card.
\<close>

theorem words_version_not_reused:
  "processAndGenerateWords demoEnv [''apple''] ''en'' ''zh'' (start libraryStore) =
     (\<lparr>store = libraryStore, reported = [LoadingLocal, FoundLocal ''apple'' 1 1], calls = [],
        minted = 1\<rparr>,
      Inr [JObj ((''id'', JStr ''id-0'') # appleFromDeck)]) \<and>
   getWords libraryStore = [JObj ((''id'', JStr ''w1'') # appleFromWords)] \<and>
   wordKey (JObj ((''id'', JStr ''w1'') # appleFromWords)) = Inr ''apple'' \<and>
   lookupProp appleFromDeck ''source'' = JStr ''deck'' \<and>
   lookupProp appleFromWords ''source'' = JStr ''words''"
proof -
  have r: "reusedCard ''id-0'' (JObj appleFromDeck) = JObj ((''id'', JStr ''id-0'') # appleFromDeck)"
    by (simp add: reusedCard_def appleFromDeck_def defaultWrites_def)
  have "processAndGenerateWords demoEnv [''apple''] ''en'' ''zh'' (start libraryStore) =
     (\<lparr>store = libraryStore, reported = [LoadingLocal, FoundLocal ''apple'' 1 1], calls = [],
        minted = 1\<rparr>,
      Inr [JObj ((''id'', JStr ''id-0'') # appleFromDeck)])"
    by (simp add: processAndGenerateWords_def unique_apple loadDraft_def start_def library_no_draft
        onProgress_def library_lookup processWord_def uuidv4_def removeItem_def fun_upd_idem
        demoEnv_def digit_char_def r)
  then show ?thesis
    by (simp add: library_words wordKey_def appleFromWords_def appleFromDeck_def
        toLowerCase_def lowerChar_def upperCase_def lowerCase_def)
qed

section \<open>Resuming from a checkpoint\<close>

text \<open>
  Claim C2, as amended. Let the slot hold a checkpoint whose requested words are the
  distinct strings \<open>iw\<close>. If they are, as a set, the normalized and deduplicated
  words of the request, the run adopts the checkpoint's cards: it issues no remote call
  for a word of a card the checkpoint holds, and when it returns, its result starts with
  those cards and its remote calls are exactly the flashcard and speech calls for the
  requested words that are neither completed in the checkpoint nor known locally, in
  sorted order. If the sets differ, the draft-reading step takes nothing from the
  checkpoint, reports nothing, throws nothing and leaves the store as it is: the
  checkpoint is ignored, not discarded. A run that returns has called the client for
  every requested word not known locally and has removed the slot. A run that throws
  leaves in the slot the checkpoint it found or one it has written itself, and when it
  throws with at most one remote call made, so before any word has been generated, the
  whole store is as it found it.
\<close>

theorem checkpoint_adopted_or_ignored:
  assumes draft: "store s0 DRAFT_KEY = Some (Text (JObj kvs))"
    and iw: "lookupProp kvs ''inputWords'' = JArr (map JStr iw)" "distinct iw"
    and run: "processAndGenerateWords env words tg nv s0 = (s', r)"
  shows "(set iw = set (uniqueInputWords words) \<longrightarrow>
           (\<forall>recovered done.
              lookupProp kvs ''generatedCards'' = JArr recovered \<and> mapE wordKey recovered = Inr done \<longrightarrow>
                (\<exists>new. calls s' = calls s0 @ new \<and> (\<forall>c \<in> set new. callWord c \<notin> set done)) \<and>
                (\<forall>ex cards. existingWordData (store s0) = Inr ex \<and> r = Inr cards \<longrightarrow>
                   (\<exists>more. cards = recovered @ more) \<and>
                   calls s' = calls s0 @ requests tg nv
                     (filter (\<lambda>w. w \<notin> set done \<and> ex w = None) (sort (uniqueInputWords words)))))) \<and>
         (set iw \<noteq> set (uniqueInputWords words) \<longrightarrow>
            loadDraft (uniqueInputWords words) s0 = (sort (uniqueInputWords words), JArr [], s0) \<and>
            (\<forall>ex cards. existingWordData (store s0) = Inr ex \<and> r = Inr cards \<longrightarrow>
               calls s' = calls s0 @ requests tg nv
                 (filter (\<lambda>w. ex w = None) (sort (uniqueInputWords words)))) \<and>
            (\<forall>cards. r = Inr cards \<longrightarrow> store s' DRAFT_KEY = None) \<and>
            (\<forall>e. r = Inl e \<longrightarrow>
               store s' DRAFT_KEY = store s0 DRAFT_KEY \<or>
               (\<exists>cards. store s' DRAFT_KEY = Some (checkpoint (sort (uniqueInputWords words)) cards))) \<and>
            (\<forall>e. r = Inl e \<and> length (calls s') \<le> length (calls s0) + 1 \<longrightarrow> store s' = store s0))"
proof (intro conjI impI allI)
  fix recovered "done"
  assume eq: "set iw = set (uniqueInputWords words)"
    and rd: "lookupProp kvs ''generatedCards'' = JArr recovered \<and> mapE wordKey recovered = Inr done"
  have l: "loadDraft (uniqueInputWords words) s0 =
             (sort (uniqueInputWords words), JArr recovered, onProgress Resuming s0)"
    using loadDraft_adopts [OF draft iw distinct_uniqueInputWords eq] rd by simp
  note rc = run_calls [OF l _ _ _ run, of "done"]
  from rc rd show "\<exists>new. calls s' = calls s0 @ new \<and> (\<forall>c \<in> set new. callWord c \<notin> set done)"
    by (simp add: onProgress_def)
  fix ex cards
  assume "existingWordData (store s0) = Inr ex \<and> r = Inr cards"
  with rc rd show "\<exists>more. cards = recovered @ more"
    and "calls s' = calls s0 @ requests tg nv
           (filter (\<lambda>w. w \<notin> set done \<and> ex w = None) (sort (uniqueInputWords words)))"
    by (simp_all add: onProgress_def)
next
  assume ne: "set iw \<noteq> set (uniqueInputWords words)"
  show l: "loadDraft (uniqueInputWords words) s0 = (sort (uniqueInputWords words), JArr [], s0)"
    by (rule loadDraft_ignores [OF draft iw distinct_uniqueInputWords ne])
  note sl = run_slot [OF l _ _ run]
  {
    fix ex cards
    assume a: "existingWordData (store s0) = Inr ex \<and> r = Inr cards"
    from run_calls [OF l _ _ _ run, of "[]"] a
    show "calls s' = calls s0 @ requests tg nv (filter (\<lambda>w. ex w = None) (sort (uniqueInputWords words)))"
      by simp
  }
  {
    fix cards assume "r = Inr cards"
    with sl show "store s' DRAFT_KEY = None" by simp
  }
  {
    fix e assume "r = Inl e"
    with sl show "store s' DRAFT_KEY = store s0 DRAFT_KEY \<or>
               (\<exists>cards. store s' DRAFT_KEY = Some (checkpoint (sort (uniqueInputWords words)) cards))"
      by simp
  }
  {
    fix e assume "r = Inl e \<and> length (calls s') \<le> length (calls s0) + 1"
    with sl show "store s' = store s0" by simp
  }
qed

text \<open>
  A checkpoint for pear, kiwi and plum with pear completed. A request for plum, pear and
  kiwi calls the client for kiwi and plum only; a request with a fourth word does not
  adopt the checkpoint; and a request for bad and fig, whose first call throws, leaves
  the store as it was.
\<close>

theorem checkpoint_adopted_or_ignored_witness:
  "processAndGenerateWords demoEnv [''plum'', ''pear'', ''kiwi''] ''en'' ''zh'' resumeState =
     (\<lparr>store = Map.empty,
        reported = [Resuming, LoadingLocal,
                    GeneratingData ''kiwi'' 1 3, GeneratingSpeech ''kiwi'' 1 3,
                    Skipped ''pear'' 2 3,
                    GeneratingData ''plum'' 3 3, GeneratingSpeech ''plum'' 3 3],
        calls = [FlashcardCall ''kiwi'' ''en'' ''zh'', SpeechCall ''kiwi'' ''en'',
                 FlashcardCall ''plum'' ''en'' ''zh'', SpeechCall ''plum'' ''en''],
        minted = 3\<rparr>,
      Inr [pearStored, fruitCard ''id-1'' ''kiwi'', fruitCard ''id-2'' ''plum'']) \<and>
   requests ''en'' ''zh'' (filter (\<lambda>w. w \<notin> set [''pear''] \<and> Map.empty w = (None :: json option))
      (sort (uniqueInputWords [''plum'', ''pear'', ''kiwi'']))) =
     [FlashcardCall ''kiwi'' ''en'' ''zh'', SpeechCall ''kiwi'' ''en'',
      FlashcardCall ''plum'' ''en'' ''zh'', SpeechCall ''plum'' ''en''] \<and>
   loadDraft (uniqueInputWords [''pear'', ''kiwi'', ''plum'', ''fig'']) resumeState =
     ([''fig'', ''kiwi'', ''pear'', ''plum''], JArr [], resumeState) \<and>
   store (fst (processAndGenerateWords demoEnv [''bad'', ''fig''] ''en'' ''zh'' resumeState)) =
     store resumeState"
proof -
  have d: "store resumeState DRAFT_KEY = Some (Text (JObj resumeDraft))"
    by (simp add: resumeState_def)
  have i: "lookupProp resumeDraft ''inputWords'' = JArr (map JStr [''pear'', ''kiwi'', ''plum''])"
    "distinct [''pear'', ''kiwi'', ''plum'']"
    by (simp_all add: resumeDraft_def)
  have g: "lookupProp resumeDraft ''generatedCards'' = JArr [pearStored]"
    by (simp add: resumeDraft_def)
  have e: "set [''pear'', ''kiwi'', ''plum''] = set (uniqueInputWords [''plum'', ''pear'', ''kiwi''])"
    by (auto simp: unique_plum_pear_kiwi)
  from checkpoint_adopted_or_ignored [OF d i resume_run, THEN conjunct1, rule_format, OF e,
      of "[pearStored]" "[''pear'']", THEN conjunct2, rule_format,
      of Map.empty "[pearStored, fruitCard ''id-1'' ''kiwi'', fruitCard ''id-2'' ''plum'']"]
    g resume_done resume_lookup
  have "[FlashcardCall ''kiwi'' ''en'' ''zh'', SpeechCall ''kiwi'' ''en'',
         FlashcardCall ''plum'' ''en'' ''zh'', SpeechCall ''plum'' ''en''] =
        requests ''en'' ''zh'' (filter (\<lambda>w. w \<notin> set [''pear''] \<and> Map.empty w = (None :: json option))
          (sort (uniqueInputWords [''plum'', ''pear'', ''kiwi''])))"
    by (simp add: resumeState_def)
  moreover have "loadDraft (uniqueInputWords [''pear'', ''kiwi'', ''plum'', ''fig'']) resumeState =
     ([''fig'', ''kiwi'', ''pear'', ''plum''], JArr [], resumeState)"
  proof -
    have u: "uniqueInputWords [''pear'', ''kiwi'', ''plum'', ''fig''] = [''pear'', ''kiwi'', ''plum'', ''fig'']"
      by (simp add: uniqueInputWords_def newSet_def setAdd_def toLowerCase_def lowerChar_def upperCase_def lowerCase_def
          trim_def isSpace_def)
    have "''fig'' \<notin> set [''pear'', ''kiwi'', ''plum'']" by simp
    moreover have "''fig'' \<in> set (uniqueInputWords [''pear'', ''kiwi'', ''plum'', ''fig''])"
      unfolding u by simp
    ultimately have ne: "set [''pear'', ''kiwi'', ''plum''] \<noteq>
        set (uniqueInputWords [''pear'', ''kiwi'', ''plum'', ''fig''])"
      by blast
    have so: "sort [''pear'', ''kiwi'', ''plum'', ''fig''] = [''fig'', ''kiwi'', ''pear'', ''plum'']"
      by simp
    obtain s' r where run:
      "processAndGenerateWords demoEnv [''pear'', ''kiwi'', ''plum'', ''fig''] ''en'' ''zh'' resumeState = (s', r)"
      by (cases "processAndGenerateWords demoEnv [''pear'', ''kiwi'', ''plum'', ''fig''] ''en'' ''zh'' resumeState")
    from checkpoint_adopted_or_ignored [OF d i run, THEN conjunct2, rule_format, OF ne, THEN conjunct1]
    show ?thesis unfolding u so .
  qed
  moreover have "store (fst (processAndGenerateWords demoEnv [''bad'', ''fig''] ''en'' ''zh'' resumeState)) =
     store resumeState"
  proof -
    have "''bad'' \<notin> set [''pear'', ''kiwi'', ''plum'']" by simp
    moreover have "''bad'' \<in> set (uniqueInputWords [''bad'', ''fig''])"
      unfolding unique_bad_fig by simp
    ultimately have ne: "set [''pear'', ''kiwi'', ''plum''] \<noteq> set (uniqueInputWords [''bad'', ''fig''])"
      by blast
    have few: "Inl (GenerationFailed ''bad'') = Inl (GenerationFailed ''bad'') \<and>
        length (calls \<lparr>store = [DRAFT_KEY \<mapsto> Text (JObj resumeDraft)],
                        reported = [LoadingLocal, GeneratingData ''bad'' 1 2],
                        calls = [FlashcardCall ''bad'' ''en'' ''zh''], minted = 1\<rparr>)
          \<le> length (calls resumeState) + 1"
      by (simp add: resumeState_def)
    from checkpoint_adopted_or_ignored [OF d i stale_run, THEN conjunct2, rule_format, OF ne,
        THEN conjunct2, THEN conjunct2, THEN conjunct2, THEN conjunct2, rule_format, OF few]
    show ?thesis by (simp add: stale_run)
  qed
  ultimately show ?thesis using resume_run by simp
qed

text \<open>
  The claim as stated fails there: the checkpoint for pear, kiwi and plum differs from
  the request for bad and fig, and after the run it is still in the slot.
\<close>

theorem mismatched_checkpoint_not_discarded:
  "processAndGenerateWords demoEnv [''bad'', ''fig''] ''en'' ''zh'' resumeState =
     (\<lparr>store = [DRAFT_KEY \<mapsto> Text (JObj resumeDraft)],
        reported = [LoadingLocal, GeneratingData ''bad'' 1 2],
        calls = [FlashcardCall ''bad'' ''en'' ''zh''], minted = 1\<rparr>,
      Inl (GenerationFailed ''bad'')) \<and>
   store resumeState DRAFT_KEY = Some (Text (JObj resumeDraft)) \<and>
   lookupProp resumeDraft ''inputWords'' = JArr [JStr ''pear'', JStr ''kiwi'', JStr ''plum''] \<and>
   uniqueInputWords [''bad'', ''fig''] = [''bad'', ''fig'']"
  using stale_run unique_bad_fig by (simp add: resumeState_def resumeDraft_def)

section \<open>When the checkpoint is written\<close>

text \<open>
  Claim C3, as amended. A word skipped because the recovered cards hold it changes
  neither the accumulator nor the store. A word found locally is appended to the
  accumulator, and the store is not written. A word generated afresh is appended and the
  checkpoint is written: the requested words of the run and the whole accumulator, as
  JSON. So, once the loop has completed a prefix of the requested words (which are, as a
  set, the normalized words of the request): the accumulator holds the recovered cards
  and one card for every word of the prefix that was not recovered; if no word of the
  prefix was generated afresh, the store is as the draft-reading step left it (the slot
  as the run found it, or empty); otherwise the slot holds the checkpoint written after
  the last word generated afresh, that is, the accumulator without the cards of the
  words reused since.
\<close>

theorem checkpoint_written_after_generated_words_only:
  "(w \<in> already \<longrightarrow>
      (\<exists>s'. processWord env tg nv ws already i w ex cards s = (s', Inr (ex, cards)) \<and>
            store s' = store s \<and> calls s' = calls s)) \<and>
   (w \<notin> already \<and> ex w = Some found \<longrightarrow>
      (\<exists>s'. processWord env tg nv ws already i w ex cards s =
              (s', Inr (ex, cards @ [reusedCard (uuid env (minted s)) found])) \<and>
            store s' = store s \<and> calls s' = calls s)) \<and>
   (w \<notin> already \<and> ex w = None \<and> generateFlashcardDataForWord env w tg nv = Inr cardData \<longrightarrow>
      (\<exists>s'. processWord env tg nv ws already i w ex cards s =
              (s', Inr (ex(toLowerCase w \<mapsto> omitId (generatedCard env w tg cardData s)),
                        cards @ [generatedCard env w tg cardData s])) \<and>
            store s' = (store s)(DRAFT_KEY \<mapsto>
                          checkpoint ws (cards @ [generatedCard env w tg cardData s])) \<and>
            calls s' = calls s @ [FlashcardCall w tg nv, SpeechCall w tg])) \<and>
   checkpoint ws cards =
     Text (JObj [(''inputWords'', JArr (map JStr ws)), (''generatedCards'', jsonify (JArr cards))]) \<and>
   (loadDraft (uniqueInputWords words) s0 = (pre @ post, JArr recovered, s1) \<and>
    mapE wordKey recovered = Inr done \<and> existingWordData (store s1) = Inr ex0 \<and>
    processWords env tg nv (pre @ post) (set done) 0 pre ex0 recovered (onProgress LoadingLocal s1) =
      (s2, Inr (ex2, cards2)) \<longrightarrow>
      set (pre @ post) = set (uniqueInputWords words) \<and>
      (store s1 DRAFT_KEY = store s0 DRAFT_KEY \<or> store s1 DRAFT_KEY = None) \<and>
      length cards2 = length recovered + length (filter (\<lambda>v. v \<notin> set done) pre) \<and>
      (list_all (\<lambda>v. v \<in> set done \<or> ex0 v \<noteq> None) pre \<longrightarrow> store s2 = store s1) \<and>
      (\<forall>p1 v p2.
         pre = p1 @ v # p2 \<and> v \<notin> set done \<and> ex0 v = None \<and>
         list_all (\<lambda>u. u \<in> set done \<or> ex0 u \<noteq> None) p2 \<longrightarrow>
           (\<exists>written more.
              cards2 = written @ more \<and>
              store s2 DRAFT_KEY = Some (checkpoint (pre @ post) written) \<and>
              length written = length recovered + length (filter (\<lambda>u. u \<notin> set done) (p1 @ [v])) \<and>
              length more = length (filter (\<lambda>u. u \<notin> set done) p2))))"
proof (intro conjI impI)
  assume "w \<in> already"
  then show "\<exists>s'. processWord env tg nv ws already i w ex cards s = (s', Inr (ex, cards)) \<and>
            store s' = store s \<and> calls s' = calls s"
    by (simp add: processWord_skip onProgress_def)
next
  assume "w \<notin> already \<and> ex w = Some found"
  then show "\<exists>s'. processWord env tg nv ws already i w ex cards s =
              (s', Inr (ex, cards @ [reusedCard (uuid env (minted s)) found])) \<and>
            store s' = store s \<and> calls s' = calls s"
    by (simp add: processWord_reuse)
next
  assume "w \<notin> already \<and> ex w = None \<and> generateFlashcardDataForWord env w tg nv = Inr cardData"
  then show "\<exists>s'. processWord env tg nv ws already i w ex cards s =
              (s', Inr (ex(toLowerCase w \<mapsto> omitId (generatedCard env w tg cardData s)),
                        cards @ [generatedCard env w tg cardData s])) \<and>
            store s' = (store s)(DRAFT_KEY \<mapsto>
                          checkpoint ws (cards @ [generatedCard env w tg cardData s])) \<and>
            calls s' = calls s @ [FlashcardCall w tg nv, SpeechCall w tg]"
    by (simp add: processWord_fresh)
next
  show "checkpoint ws cards =
     Text (JObj [(''inputWords'', JArr (map JStr ws)), (''generatedCards'', jsonify (JArr cards))])"
    by (rule checkpoint_text)
next
  assume a: "loadDraft (uniqueInputWords words) s0 = (pre @ post, JArr recovered, s1) \<and>
    mapE wordKey recovered = Inr done \<and> existingWordData (store s1) = Inr ex0 \<and>
    processWords env tg nv (pre @ post) (set done) 0 pre ex0 recovered (onProgress LoadingLocal s1) =
      (s2, Inr (ex2, cards2))"
  then have l: "loadDraft (uniqueInputWords words) s0 = (pre @ post, JArr recovered, s1)"
    and p: "processWords env tg nv (pre @ post) (set done) 0 pre ex0 recovered (onProgress LoadingLocal s1) =
      (s2, Inr (ex2, cards2))" by simp_all
  define every where "every = pre @ post"
  from loadDraft_words [OF l]
  have ws: "every = uniqueInputWords words \<or> every = sort (uniqueInputWords words)"
    by (simp add: every_def)
  then have "set every = set (uniqueInputWords words)" by auto
  then show "set (pre @ post) = set (uniqueInputWords words)" by (simp only: every_def)
  from ws have "distinct every" using distinct_uniqueInputWords [of words] by auto
  then have d: "distinct (pre @ post)" by (simp only: every_def)
  from ws have "\<forall>v \<in> set every. toLowerCase v = v"
    using lower_uniqueInputWords [of _ words] by auto
  then have lw: "\<forall>v \<in> set (pre @ post). toLowerCase v = v" by (simp only: every_def)
  from loadDraft_frame [OF l]
  show "store s1 DRAFT_KEY = store s0 DRAFT_KEY \<or> store s1 DRAFT_KEY = None" by auto
  from processWords_accumulator [OF p]
  show "length cards2 = length recovered + length (filter (\<lambda>v. v \<notin> set done) pre)" by auto
  show "store s2 = store s1" if "list_all (\<lambda>v. v \<in> set done \<or> ex0 v \<noteq> None) pre"
  proof -
    from that have "\<forall>v \<in> set pre. v \<in> set done \<or> ex0 v \<noteq> None" by (simp add: list_all_iff)
    from processWords_known [OF this, of env tg nv "pre @ post" 0 recovered "onProgress LoadingLocal s1"] p
    show ?thesis by (auto simp: onProgress_def)
  qed
  show "\<forall>p1 v p2.
         pre = p1 @ v # p2 \<and> v \<notin> set done \<and> ex0 v = None \<and>
         list_all (\<lambda>u. u \<in> set done \<or> ex0 u \<noteq> None) p2 \<longrightarrow>
           (\<exists>written more.
              cards2 = written @ more \<and>
              store s2 DRAFT_KEY = Some (checkpoint (pre @ post) written) \<and>
              length written = length recovered + length (filter (\<lambda>u. u \<notin> set done) (p1 @ [v])) \<and>
              length more = length (filter (\<lambda>u. u \<notin> set done) p2))"
  proof (intro allI impI)
    fix p1 v p2
    assume b: "pre = p1 @ v # p2 \<and> v \<notin> set done \<and> ex0 v = None \<and>
         list_all (\<lambda>u. u \<in> set done \<or> ex0 u \<noteq> None) p2"
    then have pre: "pre = p1 @ v # p2" and v: "v \<notin> set done" "ex0 v = None"
      and k: "\<forall>u \<in> set p2. u \<in> set done \<or> ex0 u \<noteq> None" by (simp_all add: list_all_iff)
    from d have "distinct pre" by simp
    then have d': "distinct (p1 @ v # p2)" by (simp only: pre)
    from lw have "\<forall>u \<in> set pre. toLowerCase u = u" by simp
    then have lw': "\<forall>u \<in> set (p1 @ v # p2). toLowerCase u = u" by (simp only: pre)
    from processWords_last_fresh [OF p [unfolded pre] d' lw' v k]
    show "\<exists>written more.
              cards2 = written @ more \<and>
              store s2 DRAFT_KEY = Some (checkpoint (pre @ post) written) \<and>
              length written = length recovered + length (filter (\<lambda>u. u \<notin> set done) (p1 @ [v])) \<and>
              length more = length (filter (\<lambda>u. u \<notin> set done) p2)"
      by (simp add: pre)
  qed
qed

text \<open>
  A request for pear and apple on the library above: pear is generated and apple is
  reused after it, so the accumulator holds two cards and the checkpoint only pear's.
\<close>

theorem checkpoint_written_witness:
  "loadDraft (uniqueInputWords [''pear'', ''apple'']) (start libraryStore) =
     ([''pear'', ''apple''], JArr [], start libraryStore) \<and>
   existingWordData libraryStore = Inr [''apple'' \<mapsto> JObj appleFromDeck] \<and>
   processWords demoEnv ''en'' ''zh'' [''pear'', ''apple''] {} 0 [''pear'', ''apple'']
     [''apple'' \<mapsto> JObj appleFromDeck] [] (onProgress LoadingLocal (start libraryStore)) =
   (afterApple,
    Inr ([''apple'' \<mapsto> JObj appleFromDeck, ''pear'' \<mapsto> omitId pearCard],
         [pearCard, JObj ((''id'', JStr ''id-1'') # appleFromDeck)])) \<and>
   store afterApple DRAFT_KEY = Some (checkpoint [''pear'', ''apple''] [pearCard]) \<and>
   checkpoint [''pear'', ''apple''] [pearCard] =
     Text (JObj [(''inputWords'', JArr [JStr ''pear'', JStr ''apple'']),
                 (''generatedCards'',
                  JArr [JObj [(''id'', JStr ''id-0''), (''word'', JStr ''pear''),
                              (''targetLanguage'', JStr ''en''), (''nativeLanguage'', JStr ''zh''),
                              (''audioPronunciation'', JStr ''UklGRg'')]])])"
proof -
  have l: "loadDraft (uniqueInputWords [''pear'', ''apple'']) (start libraryStore) =
     ([''pear'', ''apple''], JArr [], start libraryStore)"
    by (simp add: unique_pear_apple loadDraft_def start_def library_no_draft)
  have hyp: "loadDraft (uniqueInputWords [''pear'', ''apple'']) (start libraryStore) =
       ([''pear'', ''apple''] @ [], JArr [], start libraryStore) \<and>
     mapE wordKey [] = Inr [] \<and>
     existingWordData (store (start libraryStore)) = Inr [''apple'' \<mapsto> JObj appleFromDeck] \<and>
     processWords demoEnv ''en'' ''zh'' ([''pear'', ''apple''] @ []) (set []) 0 [''pear'', ''apple'']
       [''apple'' \<mapsto> JObj appleFromDeck] [] (onProgress LoadingLocal (start libraryStore)) =
     (afterApple,
      Inr ([''apple'' \<mapsto> JObj appleFromDeck, ''pear'' \<mapsto> omitId pearCard],
           [pearCard, JObj ((''id'', JStr ''id-1'') # appleFromDeck)]))"
    using l library_lookup pear_apple_loop by (simp add: start_def)
  note T = checkpoint_written_after_generated_words_only [where words = "[''pear'', ''apple'']" and ?s0.0 = "start libraryStore"
      and pre = "[''pear'', ''apple'']" and post = "[]" and recovered = "[]"
      and ?s1.0 = "start libraryStore" and ?done = "[]"
      and ?ex0.0 = "[''apple'' \<mapsto> JObj appleFromDeck]" and env = demoEnv and tg = "''en''"
      and nv = "''zh''" and ?s2.0 = afterApple
      and ?ex2.0 = "[''apple'' \<mapsto> JObj appleFromDeck, ''pear'' \<mapsto> omitId pearCard]"
      and ?cards2.0 = "[pearCard, JObj ((''id'', JStr ''id-1'') # appleFromDeck)]",
      THEN conjunct2, THEN conjunct2, THEN conjunct2, THEN conjunct2, rule_format, OF hyp]
  from T [THEN conjunct2, THEN conjunct2, THEN conjunct2, THEN conjunct2, rule_format,
      of "[]" "''pear''" "[''apple'']"]
  obtain written more where w: "[pearCard, JObj ((''id'', JStr ''id-1'') # appleFromDeck)] = written @ more"
    "store afterApple DRAFT_KEY = Some (checkpoint ([''pear'', ''apple''] @ []) written)"
    "length written = length ([] :: json list) + length (filter (\<lambda>u. u \<notin> set []) ([] @ [''pear'']))"
    "length more = length (filter (\<lambda>u. u \<notin> set []) [''apple''])"
    by auto
  from w(1,3,4) have "written = [pearCard]"
    by (cases written; cases more) auto
  with w(2) have d: "store afterApple DRAFT_KEY = Some (checkpoint [''pear'', ''apple''] [pearCard])"
    by simp
  have t: "checkpoint [''pear'', ''apple''] [pearCard] =
     Text (JObj [(''inputWords'', JArr [JStr ''pear'', JStr ''apple'']),
                 (''generatedCards'',
                  JArr [JObj [(''id'', JStr ''id-0''), (''word'', JStr ''pear''),
                              (''targetLanguage'', JStr ''en''), (''nativeLanguage'', JStr ''zh''),
                              (''audioPronunciation'', JStr ''UklGRg'')]])])"
    by (simp add: checkpoint_text pearCard_def undefinedToNull_def)
  from l library_lookup pear_apple_loop d t show ?thesis by simp
qed

text \<open>
  The claim as stated fails for a word found locally: apple is completed from the store,
  the call for the next word throws, and no checkpoint has been written.
\<close>

theorem reused_word_writes_no_checkpoint:
  "processAndGenerateWords demoEnv [''apple'', ''bad''] ''en'' ''zh'' (start libraryStore) =
     (\<lparr>store = libraryStore,
        reported = [LoadingLocal, FoundLocal ''apple'' 1 2, GeneratingData ''bad'' 2 2],
        calls = [FlashcardCall ''bad'' ''en'' ''zh''], minted = 1\<rparr>,
      Inl (GenerationFailed ''bad'')) \<and>
   libraryStore DRAFT_KEY = None"
  by (simp add: processAndGenerateWords_def unique_apple_bad loadDraft_def start_def library_no_draft
      onProgress_def library_lookup processWord_def uuidv4_def remote_def
      generateFlashcardDataForWord_def demoEnv_def)

section \<open>The checkpoint on failure and on success\<close>

text \<open>
  Claim C4. A run that returns cards has removed the draft. If, after the words before it
  have been processed, the flashcard call for a word throws, the run returns that error
  at once: no call follows the failing one and the store is what it was when the call
  began. The draft is then as the draft-reading step left it, or it is the checkpoint
  written by this run: the requested words of the run and a prefix of the accumulator
  that extends the recovered cards.
\<close>

theorem draft_kept_on_failure_removed_on_success:
  "(processAndGenerateWords env words tg nv s0 = (s', Inr cards) \<longrightarrow> store s' DRAFT_KEY = None) \<and>
   (loadDraft (uniqueInputWords words) s0 = (pre @ w # post, JArr recovered, s1) \<and>
    mapE wordKey recovered = Inr done \<and> existingWordData (store s1) = Inr ex \<and>
    processWords env tg nv (pre @ w # post) (set done) 0 pre ex recovered (onProgress LoadingLocal s1) =
      (s2, Inr (ex2, cards2)) \<and>
    w \<notin> set done \<and> ex2 w = None \<and> generateFlashcardDataForWord env w tg nv = Inl e \<longrightarrow>
      (\<exists>s3. processAndGenerateWords env words tg nv s0 = (s3, Inl e) \<and>
            store s3 = store s2 \<and>
            calls s3 = calls s2 @ [FlashcardCall w tg nv] \<and>
            (store s3 DRAFT_KEY = store s1 DRAFT_KEY \<or>
             (\<exists>written more.
                store s3 DRAFT_KEY = Some (checkpoint (pre @ w # post) (recovered @ written)) \<and>
                cards2 = recovered @ written @ more))))"
proof (intro conjI impI)
  assume "processAndGenerateWords env words tg nv s0 = (s', Inr cards)"
  then show "store s' DRAFT_KEY = None" by (rule processAndGenerateWords_success)
next
  assume a: "loadDraft (uniqueInputWords words) s0 = (pre @ w # post, JArr recovered, s1) \<and>
    mapE wordKey recovered = Inr done \<and> existingWordData (store s1) = Inr ex \<and>
    processWords env tg nv (pre @ w # post) (set done) 0 pre ex recovered (onProgress LoadingLocal s1) =
      (s2, Inr (ex2, cards2)) \<and>
    w \<notin> set done \<and> ex2 w = None \<and> generateFlashcardDataForWord env w tg nv = Inl e"
  let ?ws = "pre @ w # post"
  let ?s3 = "s2\<lparr>reported := reported s2 @ [GeneratingData w (0 + length pre + 1) (length ?ws)],
               calls := calls s2 @ [FlashcardCall w tg nv]\<rparr>"
  from a have pre: "processWords env tg nv ?ws (set done) 0 pre ex recovered (onProgress LoadingLocal s1) =
      (s2, Inr (ex2, cards2))" by simp
  have loop: "processWords env tg nv ?ws (set done) 0 ?ws ex recovered (onProgress LoadingLocal s1) = (?s3, Inl e)"
    by (rule processWords_fail_at [OF pre]) (use a in simp_all)
  have main: "processAndGenerateWords env words tg nv s0 = (?s3, Inl e)"
  proof -
    from a have 1: "loadDraft (uniqueInputWords words) s0 = (?ws, JArr recovered, s1)"
      and 2: "mapE wordKey recovered = Inr done" and 3: "existingWordData (store s1) = Inr ex"
      by simp_all
    show ?thesis by (simp add: processAndGenerateWords_unfold [OF 1 2 3] loop)
  qed
  from processWords_draft [OF pre]
  have d: "store s2 DRAFT_KEY = store s1 DRAFT_KEY \<or>
             (\<exists>written more.
                store s2 DRAFT_KEY = Some (checkpoint ?ws (recovered @ written)) \<and>
                cards2 = recovered @ written @ more)"
    by (auto simp: onProgress_def)
  show "\<exists>s3. processAndGenerateWords env words tg nv s0 = (s3, Inl e) \<and>
            store s3 = store s2 \<and>
            calls s3 = calls s2 @ [FlashcardCall w tg nv] \<and>
            (store s3 DRAFT_KEY = store s1 DRAFT_KEY \<or>
             (\<exists>written more.
                store s3 DRAFT_KEY = Some (checkpoint (pre @ w # post) (recovered @ written)) \<and>
                cards2 = recovered @ written @ more))"
    by (rule exI [of _ ?s3]) (use main d in simp)
qed

text \<open>
  Pear is generated, the call for bad throws: the draft holds pear's card and the three
  requested words. And the run that resumes the checkpoint for pear, kiwi and plum
  returns with the slot empty.
\<close>

theorem draft_kept_on_failure_witness:
  "(\<exists>s3. processAndGenerateWords demoEnv [''pear'', ''bad'', ''kiwi''] ''en'' ''zh'' (start Map.empty) =
           (s3, Inl (GenerationFailed ''bad'')) \<and>
         store s3 DRAFT_KEY = Some (checkpoint [''pear'', ''bad'', ''kiwi''] [pearCard]) \<and>
         calls s3 = [FlashcardCall ''pear'' ''en'' ''zh'', SpeechCall ''pear'' ''en'',
                     FlashcardCall ''bad'' ''en'' ''zh'']) \<and>
   checkpoint [''pear'', ''bad'', ''kiwi''] [pearCard] =
     Text (JObj [(''inputWords'', JArr [JStr ''pear'', JStr ''bad'', JStr ''kiwi'']),
                 (''generatedCards'',
                  JArr [JObj [(''id'', JStr ''id-0''), (''word'', JStr ''pear''),
                              (''targetLanguage'', JStr ''en''), (''nativeLanguage'', JStr ''zh''),
                              (''audioPronunciation'', JStr ''UklGRg'')]])]) \<and>
   store resumeState DRAFT_KEY = Some (Text (JObj resumeDraft)) \<and>
   store (fst (processAndGenerateWords demoEnv [''plum'', ''pear'', ''kiwi''] ''en'' ''zh'' resumeState))
     DRAFT_KEY = None"
proof -
  have l2: "loadDraft (uniqueInputWords [''pear'', ''bad'', ''kiwi'']) (start Map.empty) =
             ([''pear''] @ ''bad'' # [''kiwi''], JArr [], start Map.empty)"
    by (simp add: unique_pear_bad_kiwi loadDraft_def start_def)
  have hyp: "loadDraft (uniqueInputWords [''pear'', ''bad'', ''kiwi'']) (start Map.empty) =
             ([''pear''] @ ''bad'' # [''kiwi''], JArr [], start Map.empty) \<and>
    mapE wordKey [] = Inr [] \<and> existingWordData (store (start Map.empty)) = Inr Map.empty \<and>
    processWords demoEnv ''en'' ''zh'' ([''pear''] @ ''bad'' # [''kiwi'']) (set []) 0 [''pear''] Map.empty []
       (onProgress LoadingLocal (start Map.empty)) =
      (afterPear, Inr ([''pear'' \<mapsto> omitId pearCard], [pearCard])) \<and>
    ''bad'' \<notin> set [] \<and> [''pear'' \<mapsto> omitId pearCard] ''bad'' = None \<and>
    generateFlashcardDataForWord demoEnv ''bad'' ''en'' ''zh'' = Inl (GenerationFailed ''bad'')"
    using l2 pear_loop by (simp add: empty_lookup start_def demo_bad)
  from draft_kept_on_failure_removed_on_success
    [where env = demoEnv and words = "[''pear'', ''bad'', ''kiwi'']" and tg = "''en''" and nv = "''zh''"
       and ?s0.0 = "start Map.empty" and pre = "[''pear'']" and w = "''bad''" and post = "[''kiwi'']"
       and recovered = "[]" and ?s1.0 = "start Map.empty" and ?done = "[]" and ex = Map.empty
       and ?s2.0 = afterPear and ?ex2.0 = "[''pear'' \<mapsto> omitId pearCard]" and ?cards2.0 = "[pearCard]"
       and e = "GenerationFailed ''bad''", THEN conjunct2, rule_format, OF hyp]
  obtain s3 where r: "processAndGenerateWords demoEnv [''pear'', ''bad'', ''kiwi''] ''en'' ''zh'' (start Map.empty) =
           (s3, Inl (GenerationFailed ''bad''))"
    and s: "store s3 = store afterPear"
    and c: "calls s3 = calls afterPear @ [FlashcardCall ''bad'' ''en'' ''zh'']"
    by blast
  have t: "checkpoint [''pear'', ''bad'', ''kiwi''] [pearCard] =
     Text (JObj [(''inputWords'', JArr [JStr ''pear'', JStr ''bad'', JStr ''kiwi'']),
                 (''generatedCards'',
                  JArr [JObj [(''id'', JStr ''id-0''), (''word'', JStr ''pear''),
                              (''targetLanguage'', JStr ''en''), (''nativeLanguage'', JStr ''zh''),
                              (''audioPronunciation'', JStr ''UklGRg'')]])])"
    by (simp add: checkpoint_text pearCard_def undefinedToNull_def)
  have "store s3 DRAFT_KEY = Some (checkpoint [''pear'', ''bad'', ''kiwi''] [pearCard])"
    by (simp add: s afterPear_def)
  moreover have "calls s3 = [FlashcardCall ''pear'' ''en'' ''zh'', SpeechCall ''pear'' ''en'',
                     FlashcardCall ''bad'' ''en'' ''zh'']"
    by (simp add: c afterPear_def)
  moreover have "store resumeState DRAFT_KEY = Some (Text (JObj resumeDraft))"
    by (simp add: resumeState_def)
  moreover from draft_kept_on_failure_removed_on_success
    [where env = demoEnv and words = "[''plum'', ''pear'', ''kiwi'']" and tg = "''en''" and nv = "''zh''"
       and ?s0.0 = resumeState, THEN conjunct1, rule_format, OF resume_run]
  have "store (fst (processAndGenerateWords demoEnv [''plum'', ''pear'', ''kiwi''] ''en'' ''zh'' resumeState))
     DRAFT_KEY = None"
    by (simp add: resume_run)
  ultimately show ?thesis using r t by blast
qed

section \<open>An empty request\<close>

lemma trim_Nil_iff: "trim s = [] \<longleftrightarrow> list_all isSpace s"
proof -
  have "dropWhile isSpace s = [] \<longleftrightarrow> list_all isSpace s"
    by (simp add: dropWhile_eq_Nil_conv list_all_iff)
  moreover have "rev (dropWhile isSpace (rev (dropWhile isSpace s))) = [] \<longleftrightarrow> dropWhile isSpace s = []"
  proof
    assume "rev (dropWhile isSpace (rev (dropWhile isSpace s))) = []"
    then have a: "\<forall>c \<in> set (dropWhile isSpace s). isSpace c"
      by (simp add: dropWhile_eq_Nil_conv)
    show "dropWhile isSpace s = []"
    proof (cases "dropWhile isSpace s")
      case Nil
      then show ?thesis .
    next
      case (Cons c cs)
      then have "\<not> isSpace c" using hd_dropWhile [of isSpace s] by simp
      moreover have "isSpace c" using a Cons by simp
      ultimately show ?thesis by simp
    qed
  next
    assume d: "dropWhile isSpace s = []"
    show "rev (dropWhile isSpace (rev (dropWhile isSpace s))) = []" unfolding d by simp
  qed
  ultimately show ?thesis by (simp add: trim_def)
qed

lemma uniqueInputWords_Nil_iff:
  "uniqueInputWords words = [] \<longleftrightarrow> list_all (list_all isSpace) words"
proof -
  have "uniqueInputWords words = [] \<longleftrightarrow> set (uniqueInputWords words) = {}" by simp
  also have "\<dots> \<longleftrightarrow> (\<forall>w \<in> set words. toLowerCase (trim w) = [])"
    by (auto simp: uniqueInputWords_def set_newSet)
  also have "\<dots> \<longleftrightarrow> (\<forall>w \<in> set words. trim w = [])"
    by (simp add: toLowerCase_def)
  finally show ?thesis by (simp add: trim_Nil_iff list_all_iff)
qed

lemma loadDraft_empty_adopts:
  assumes "store s DRAFT_KEY = Some (Text draft)" "propOf draft ''inputWords'' = JArr []"
  shows "loadDraft [] s = ([], propOf draft ''generatedCards'', onProgress Resuming s)"
proof -
  from assms(2) obtain kvs where d: "draft = JObj kvs"
    by (cases draft) (auto simp: propOf_def)
  with assms show ?thesis
    by (simp add: loadDraft_def propOf_def sameWords_def)
qed

lemma blank_words: "list_all (list_all isSpace) [[CHR 0xA0, CHR 0x20], [CHR 0x09], []]"
  by (simp add: isSpace_def)

text \<open>
  Claim C9, as amended. When every requested word is empty or white space, the list of
  normalized words is empty, and the run issues no remote call, mints no identifier and
  writes nothing: every key but the draft's is as before, and the draft is as before or
  removed. A run that returns has removed the draft. It returns the empty list, unless
  the slot held a draft whose own requested list is empty: then it returns that draft's
  cards. The only error it can throw is the type error of reading the stored decks and
  words or the recovered cards.
\<close>

theorem empty_request_no_calls_draft_removed:
  assumes u: "list_all (list_all isSpace) words"
    and r: "processAndGenerateWords env words tg nv s0 = (s', r)"
  shows "uniqueInputWords words = [] \<and>
         calls s' = calls s0 \<and> minted s' = minted s0 \<and>
         (\<forall>k. k \<noteq> DRAFT_KEY \<longrightarrow> store s' k = store s0 k) \<and>
         (store s' DRAFT_KEY = None \<or> store s' DRAFT_KEY = store s0 DRAFT_KEY) \<and>
         (\<forall>cards. r = Inr cards \<longrightarrow> store s' DRAFT_KEY = None) \<and>
         (\<forall>e. r = Inl e \<longrightarrow> e = TypeError) \<and>
         (\<not> emptyDraft (store s0) \<longrightarrow> r = Inr [] \<or> r = Inl TypeError) \<and>
         (\<forall>ex. \<not> emptyDraft (store s0) \<and> existingWordData (store s0) = Inr ex \<longrightarrow> r = Inr []) \<and>
         (\<forall>draft recovered done ex.
            store s0 DRAFT_KEY = Some (Text draft) \<and> propOf draft ''inputWords'' = JArr [] \<and>
            propOf draft ''generatedCards'' = JArr recovered \<and> mapE wordKey recovered = Inr done \<and>
            existingWordData (store s0) = Inr ex \<longrightarrow>
              r = Inr recovered \<and> store s' DRAFT_KEY = None)"
proof -
  from u have u: "uniqueInputWords words = []" by (simp add: uniqueInputWords_Nil_iff)
  obtain ws g s1 where l: "loadDraft [] s0 = (ws, g, s1)" by (cases "loadDraft [] s0")
  have ws: "ws = []" by (rule loadDraft_empty [OF l])
  note f = loadDraft_frame [OF l]
  have g: "\<not> emptyDraft (store s0) \<Longrightarrow> g = JArr []" by (rule loadDraft_not_adopted [OF l])
  have same: "existingWordData (store s1) = existingWordData (store s0)"
  proof -
    have "getDecks (store s1) = getDecks (store s0)" "getWords (store s1) = getWords (store s0)"
      using f by (simp_all add: getDecks_def getWords_def DRAFT_KEY_other [symmetric])
    then show ?thesis by (simp add: existingWordData_def)
  qed
  have adopt: "\<forall>draft recovered done ex.
            store s0 DRAFT_KEY = Some (Text draft) \<and> propOf draft ''inputWords'' = JArr [] \<and>
            propOf draft ''generatedCards'' = JArr recovered \<and> mapE wordKey recovered = Inr done \<and>
            existingWordData (store s0) = Inr ex \<longrightarrow>
              r = Inr recovered \<and> store s' DRAFT_KEY = None"
  proof (intro allI impI)
    fix draft recovered "done" ex
    assume a: "store s0 DRAFT_KEY = Some (Text draft) \<and> propOf draft ''inputWords'' = JArr [] \<and>
            propOf draft ''generatedCards'' = JArr recovered \<and> mapE wordKey recovered = Inr done \<and>
            existingWordData (store s0) = Inr ex"
    then have l': "loadDraft (uniqueInputWords words) s0 = ([], JArr recovered, onProgress Resuming s0)"
      using loadDraft_empty_adopts [of s0 draft] by (simp add: u)
    from a have d: "mapE wordKey recovered = Inr done"
      and e: "existingWordData (store (onProgress Resuming s0)) = Inr ex"
      by (simp_all add: onProgress_def)
    from r show "r = Inr recovered \<and> store s' DRAFT_KEY = None"
      unfolding processAndGenerateWords_unfold [OF l' d e]
      by (auto simp: removeItem_def)
  qed
  have rest: "calls s' = calls s0 \<and> minted s' = minted s0 \<and>
         (\<forall>k. k \<noteq> DRAFT_KEY \<longrightarrow> store s' k = store s0 k) \<and>
         (store s' DRAFT_KEY = None \<or> store s' DRAFT_KEY = store s0 DRAFT_KEY) \<and>
         (\<forall>cards. r = Inr cards \<longrightarrow> store s' DRAFT_KEY = None) \<and>
         (\<forall>e. r = Inl e \<longrightarrow> e = TypeError) \<and>
         (\<not> emptyDraft (store s0) \<longrightarrow> r = Inr [] \<or> r = Inl TypeError) \<and>
         (\<forall>ex. \<not> emptyDraft (store s0) \<and> existingWordData (store s0) = Inr ex \<longrightarrow> r = Inr [])"
  proof (cases "arrayElements g")
    case (Inl e)
    with r l u have "s' = s1" "r = Inl e" by (simp_all add: processAndGenerateWords_def)
    moreover from Inl have "e = TypeError" by (rule arrayElements_error)
    moreover have "\<not> emptyDraft (store s0) \<Longrightarrow> False" using g Inl by simp
    ultimately show ?thesis using f by auto
  next
    case (Inr recovered)
    note rec = this
    show ?thesis
    proof (cases "mapE wordKey recovered")
      case (Inl e)
      with r l u rec have "s' = s1" "r = Inl e" by (simp_all add: processAndGenerateWords_def)
      moreover from mapE_error [OF Inl] have "e = TypeError" by (auto dest: wordKey_error)
      moreover have "\<not> emptyDraft (store s0) \<Longrightarrow> False" using g rec Inl by auto
      ultimately show ?thesis using f by auto
    next
      case (Inr done')
      note dn = this
      show ?thesis
      proof (cases "existingWordData (store s1)")
        case (Inl e)
        with r l u rec dn have "s' = onProgress LoadingLocal s1" "r = Inl e"
          by (simp_all add: processAndGenerateWords_def onProgress_def)
        moreover from Inl have "e = TypeError" by (rule existingWordData_error)
        ultimately show ?thesis using f Inl same by (auto simp: onProgress_def)
      next
        case (Inr ex)
        with r l u rec dn ws have "s' = removeItem DRAFT_KEY (onProgress LoadingLocal s1)" "r = Inr recovered"
          by (simp_all add: processAndGenerateWords_def onProgress_def)
        moreover have "\<not> emptyDraft (store s0) \<Longrightarrow> recovered = []" using g rec by auto
        ultimately show ?thesis using f by (auto simp: onProgress_def removeItem_def)
      qed
    qed
  qed
  from u rest adopt show ?thesis by simp
qed

text \<open>
  A request of a no-break space with a space, a tab, and the empty word, on the store
  above, returns the empty list without a call. The empty request on a store whose draft
  has an empty list of requested words returns that draft's card and removes the draft.
\<close>

theorem empty_request_witness:
  "list_all (list_all isSpace) [[CHR 0xA0, CHR 0x20], [CHR 0x09], []] \<and>
   uniqueInputWords [[CHR 0xA0, CHR 0x20], [CHR 0x09], []] = [] \<and>
   processAndGenerateWords demoEnv [[CHR 0xA0, CHR 0x20], [CHR 0x09], []] ''en'' ''zh'' (start libraryStore) =
     (\<lparr>store = libraryStore, reported = [LoadingLocal], calls = [], minted = 0\<rparr>, Inr []) \<and>
   list_all (list_all isSpace) [] \<and>
   processAndGenerateWords demoEnv [] ''en'' ''zh'' (start emptyDraftStore) =
     (\<lparr>store = Map.empty, reported = [Resuming, LoadingLocal], calls = [], minted = 0\<rparr>,
      Inr [pearStored])"
proof -
  obtain s1 r1 where r1: "processAndGenerateWords demoEnv [[CHR 0xA0, CHR 0x20], [CHR 0x09], []]
      ''en'' ''zh'' (start libraryStore) = (s1, r1)"
    by (cases "processAndGenerateWords demoEnv [[CHR 0xA0, CHR 0x20], [CHR 0x09], []]
      ''en'' ''zh'' (start libraryStore)")
  note t1 = empty_request_no_calls_draft_removed [OF blank_words r1]
  have n: "\<not> emptyDraft (store (start libraryStore))"
    by (simp add: emptyDraft_def start_def library_no_draft)
  from t1 have u1: "uniqueInputWords [[CHR 0xA0, CHR 0x20], [CHR 0x09], []] = []" by blast
  from t1 n library_lookup have res1: "r1 = Inr []" by (simp add: start_def)
  from t1 have c1: "calls s1 = []" "minted s1 = 0" by (simp_all add: start_def)
  from t1 res1 have d1: "store s1 DRAFT_KEY = None" by blast
  from t1 have o1: "\<forall>k. k \<noteq> DRAFT_KEY \<longrightarrow> store s1 k = libraryStore k" by (simp add: start_def)
  have st1: "store s1 = libraryStore"
  proof
    fix k show "store s1 k = libraryStore k"
      using d1 o1 library_no_draft by (cases "k = DRAFT_KEY") simp_all
  qed
  have rep1: "reported s1 = [LoadingLocal]"
    using r1 by (auto simp: processAndGenerateWords_def u1 loadDraft_def start_def library_no_draft
        onProgress_def library_lookup removeItem_def)
  have full1: "s1 = \<lparr>store = libraryStore, reported = [LoadingLocal], calls = [], minted = 0\<rparr>"
    using st1 rep1 c1 by (cases s1) simp
  obtain s2 r2 where r2: "processAndGenerateWords demoEnv [] ''en'' ''zh'' (start emptyDraftStore) = (s2, r2)"
    by (cases "processAndGenerateWords demoEnv [] ''en'' ''zh'' (start emptyDraftStore)")
  have e2: "existingWordData emptyDraftStore = Inr Map.empty"
    by (simp add: existingWordData_def getDecks_def getWords_def readCollection_def parseOrEmpty_def
        mapArray_def emptyDraftStore_def DRAFT_KEY_other [symmetric])
  have b2: "list_all (list_all isSpace) []" by simp
  note t2 = empty_request_no_calls_draft_removed [OF b2 r2]
  have hyp: "store (start emptyDraftStore) DRAFT_KEY =
               Some (Text (JObj [(''inputWords'', JArr []), (''generatedCards'', JArr [pearStored])])) \<and>
             propOf (JObj [(''inputWords'', JArr []), (''generatedCards'', JArr [pearStored])])
               ''inputWords'' = JArr [] \<and>
             propOf (JObj [(''inputWords'', JArr []), (''generatedCards'', JArr [pearStored])])
               ''generatedCards'' = JArr [pearStored] \<and>
             mapE wordKey [pearStored] = Inr [''pear''] \<and>
             existingWordData (store (start emptyDraftStore)) = Inr Map.empty"
    using resume_done e2 by (simp add: start_def emptyDraftStore_def propOf_def)
  from t2 [THEN conjunct2, THEN conjunct2, THEN conjunct2, THEN conjunct2, THEN conjunct2,
      THEN conjunct2, THEN conjunct2, THEN conjunct2, THEN conjunct2, rule_format, OF hyp]
  have res2: "r2 = Inr [pearStored]" and d2: "store s2 DRAFT_KEY = None"
    by simp_all
  from t2 have c2: "calls s2 = []" "minted s2 = 0"
    and o2: "\<forall>k. k \<noteq> DRAFT_KEY \<longrightarrow> store s2 k = emptyDraftStore k" by (simp_all add: start_def)
  have st2: "store s2 = Map.empty"
  proof
    fix k show "store s2 k = Map.empty k"
      using d2 o2 by (cases "k = DRAFT_KEY") (simp_all add: emptyDraftStore_def)
  qed
  have l2: "loadDraft (uniqueInputWords []) (start emptyDraftStore) =
              ([], JArr [pearStored], onProgress Resuming (start emptyDraftStore))"
    by (simp add: unique_none loadDraft_def start_def emptyDraftStore_def sameWords_def onProgress_def)
  have e2': "existingWordData (store (onProgress Resuming (start emptyDraftStore))) = Inr Map.empty"
    using e2 by (simp add: onProgress_def start_def)
  have rep2: "reported s2 = [Resuming, LoadingLocal]"
    using r2 unfolding processAndGenerateWords_unfold [OF l2 resume_done e2']
    by (auto simp: onProgress_def start_def removeItem_def)
  have full2: "s2 = \<lparr>store = Map.empty, reported = [Resuming, LoadingLocal], calls = [], minted = 0\<rparr>"
    using st2 rep2 c2 by (cases s2) simp
  from blank_words u1 r1 res1 full1 r2 res2 full2 show ?thesis by simp
qed

text \<open>
  The claim as stated fails when the slot holds the checkpoint of another request: the
  empty request deletes it.
\<close>

theorem empty_request_removes_stale_draft:
  "processAndGenerateWords demoEnv [] ''en'' ''zh'' (start staleStore) =
     (\<lparr>store = Map.empty, reported = [LoadingLocal], calls = [], minted = 0\<rparr>, Inr []) \<and>
   staleStore DRAFT_KEY = Some (checkpoint [''pear'', ''bad'', ''kiwi''] [pearCard])"
proof -
  have e: "existingWordData staleStore = Inr Map.empty"
    by (simp add: existingWordData_def getDecks_def getWords_def readCollection_def parseOrEmpty_def
        mapArray_def staleStore_def DRAFT_KEY_other [symmetric])
  have s: "sameWords [JStr ''pear'', JStr ''bad'', JStr ''kiwi''] [] = False"
    by (simp add: sameWords_Nil)
  have d: "staleStore DRAFT_KEY = Some (checkpoint [''pear'', ''bad'', ''kiwi''] [pearCard])"
    by (simp add: staleStore_def)
  have c: "staleStore(DRAFT_KEY := None) = Map.empty"
    by (simp add: staleStore_def)
  have "processAndGenerateWords demoEnv [] ''en'' ''zh'' (start staleStore) =
     (\<lparr>store = Map.empty, reported = [LoadingLocal], calls = [], minted = 0\<rparr>, Inr [])"
    by (simp add: processAndGenerateWords_def unique_none loadDraft_def start_def
        onProgress_def e removeItem_def d c checkpoint_text s del: jsonify.simps)
  with d show ?thesis by simp
qed

end
